theory Spec2Isabelle
  imports Complex_Main "HOL-Library.Sublist" "HOL-Library.Monad_Syntax"
begin

section \<open>Strings and the regular expressions of the source\<close>

text \<open>
  A JavaScript string is a sequence of UTF-16 code units. The model covers the strings whose
  code units are below 256 and writes them as \<^typ>\<open>string\<close>, one \<^typ>\<open>char\<close> per code unit,
  so \<open>length\<close> is the \<open>.length\<close> of the source.
\<close>

text \<open>The class \<open>\s\<close> of a regular expression, which is also what \<open>trim()\<close> strips:
  tab, line feed, vertical tab, form feed, carriage return, space and the no-break space.\<close>

definition is_space :: "char \<Rightarrow> bool" where
  "is_space c \<longleftrightarrow> c \<in> {CHR 0x09, CHR 0x0A, CHR 0x0B, CHR 0x0C, CHR 0x0D, CHR 0x20, CHR 0xA0}"

text \<open>The class \<open>\d\<close>: the ten ASCII digits.\<close>

definition is_digit :: "char \<Rightarrow> bool" where
  "is_digit c \<longleftrightarrow> (48::nat) \<le> of_char c \<and> of_char c \<le> (57::nat)"

text \<open>The class \<open>\w\<close>: ASCII letters, digits and the underscore.\<close>

definition is_word :: "char \<Rightarrow> bool" where
  "is_word c \<longleftrightarrow> is_digit c
     \<or> ((65::nat) \<le> of_char c \<and> of_char c \<le> (90::nat))
     \<or> ((97::nat) \<le> of_char c \<and> of_char c \<le> (122::nat))
     \<or> c = CHR ''_''"

definition is_quote :: "char \<Rightarrow> bool" where
  "is_quote c \<longleftrightarrow> c = CHR 0x27 \<or> c = CHR 0x22"

text \<open>\<open>String.prototype.trim\<close>.\<close>

definition trim :: "string \<Rightarrow> string" where
  "trim s = rev (dropWhile is_space (rev (dropWhile is_space s)))"

text \<open>\<open>s.includes(t)\<close>: \<open>t\<close> occurs in \<open>s\<close> as a contiguous substring.\<close>

fun includes_str :: "string \<Rightarrow> string \<Rightarrow> bool" where
  "includes_str [] t = (t = [])"
| "includes_str (c # cs) t = (prefix t (c # cs) \<or> includes_str cs t)"

text \<open>The pieces a pattern is built from. Each returns what is left of the input after the
  piece, or \<open>None\<close> when the piece does not match at the start of the input.\<close>

definition lit :: "string \<Rightarrow> string \<Rightarrow> string option" where
  "lit p s = (if prefix p s then Some (drop (length p) s) else None)"

definition one :: "(char \<Rightarrow> bool) \<Rightarrow> string \<Rightarrow> string option" where
  "one P s = (case s of [] \<Rightarrow> None | c # cs \<Rightarrow> if P c then Some cs else None)"

text \<open>A greedy \<open>X+\<close> over a character class. In every pattern of the source the piece that
  follows \<open>X+\<close> or \<open>X*\<close> starts with a character outside the class, so backtracking into a
  shorter run can never succeed and the longest run is the only candidate.\<close>

definition many1 :: "(char \<Rightarrow> bool) \<Rightarrow> string \<Rightarrow> (string \<times> string) option" where
  "many1 P s = (if takeWhile P s = [] then None else Some (takeWhile P s, dropWhile P s))"

text \<open>The lazy \<open>(.*?)\<close> followed by a literal, under the \<open>s\<close> flag: the text up to the first
  occurrence of the literal, and the text after that occurrence.\<close>

fun until_lit :: "string \<Rightarrow> string \<Rightarrow> (string \<times> string) option" where
  "until_lit p [] = (if p = [] then Some ([], []) else None)"
| "until_lit p (c # cs) =
     (if prefix p (c # cs) then Some ([], drop (length p) (c # cs))
      else map_option (\<lambda>(body, rest). (c # body, rest)) (until_lit p cs))"

text \<open>A global scan (\<open>matchAll\<close>, \<open>replace\<close> with the \<open>g\<close> flag, \<open>match\<close> with the \<open>g\<close> flag):
  the pattern is tried at the current position; on success the match is recorded and the scan
  goes on behind it, otherwise the character is passed over. A pattern is given by its matcher,
  which returns the captured groups and the input left behind the match.\<close>

datatype 'g token = Lit char | Match 'g

function regex_scan :: "(string \<Rightarrow> ('g \<times> string) option) \<Rightarrow> string \<Rightarrow> 'g token list" where
  "regex_scan m s =
     (case m s of
        Some (g, rest) \<Rightarrow>
          if length rest < length s then Match g # regex_scan m rest
          else (case s of [] \<Rightarrow> [] | c # cs \<Rightarrow> Lit c # regex_scan m cs)
      | None \<Rightarrow> (case s of [] \<Rightarrow> [] | c # cs \<Rightarrow> Lit c # regex_scan m cs))"
  by pat_completeness auto
termination
  by (relation "measure (\<lambda>(m, s). length s)") auto

declare regex_scan.simps [simp del]

text \<open>\<open>matchAll\<close>: the groups of the successive matches.\<close>

definition match_all :: "(string \<Rightarrow> ('g \<times> string) option) \<Rightarrow> string \<Rightarrow> 'g list" where
  "match_all m s = List.map_filter (\<lambda>t. case t of Match g \<Rightarrow> Some g | Lit c \<Rightarrow> None) (regex_scan m s)"

text \<open>\<open>replace(pattern, '')\<close> with the \<open>g\<close> flag: what is left when every match is deleted.\<close>

definition remove_all :: "(string \<Rightarrow> ('g \<times> string) option) \<Rightarrow> string \<Rightarrow> string" where
  "remove_all m s = List.map_filter (\<lambda>t. case t of Lit c \<Rightarrow> Some c | Match g \<Rightarrow> None) (regex_scan m s)"

text \<open>\<open>/\[function_call\](.*?)\[\/function_call\]/gs\<close>; the group is the block's body.\<close>

definition block_at :: "string \<Rightarrow> (string \<times> string) option" where
  "block_at s = do {
     s1 \<leftarrow> lit ''[function_call]'' s;
     until_lit ''[/function_call]'' s1
   }"

text \<open>\<open>/\[tool_call:\s*(\w+)\s+for\s+(\w+)\s+['"]([^'"]+)['"]\]/g\<close>; the groups are the
  function name, the parameter name and the parameter value.\<close>

definition tool_call_at :: "string \<Rightarrow> ((string \<times> string \<times> string) \<times> string) option" where
  "tool_call_at s = do {
     s1 \<leftarrow> lit ''[tool_call:'' s;
     (functionName, s2) \<leftarrow> many1 is_word (dropWhile is_space s1);
     (sp1, s3) \<leftarrow> many1 is_space s2;
     s4 \<leftarrow> lit ''for'' s3;
     (sp2, s5) \<leftarrow> many1 is_space s4;
     (paramName, s6) \<leftarrow> many1 is_word s5;
     (sp3, s7) \<leftarrow> many1 is_space s6;
     s8 \<leftarrow> one is_quote s7;
     (paramValue, s9) \<leftarrow> many1 (\<lambda>c. \<not> is_quote c) s8;
     s10 \<leftarrow> one is_quote s9;
     s11 \<leftarrow> lit '']'' s10;
     Some ((functionName, paramName, paramValue), s11)
   }"

text \<open>\<open>/\s*\[tool_call:[^\]]+\]\s*/g\<close>, the pattern that deletes the inline form.\<close>

definition tool_call_text_at :: "string \<Rightarrow> (unit \<times> string) option" where
  "tool_call_text_at s = do {
     s1 \<leftarrow> lit ''[tool_call:'' (dropWhile is_space s);
     (inner, s2) \<leftarrow> many1 (\<lambda>c. c \<noteq> CHR '']'') s1;
     s3 \<leftarrow> lit '']'' s2;
     Some ((), dropWhile is_space s3)
   }"

text \<open>\<open>/Calling function (\w+)/g\<close>; the group is the function name.\<close>

definition simple_call_at :: "string \<Rightarrow> (string \<times> string) option" where
  "simple_call_at s = do {
     s1 \<leftarrow> lit ''Calling function '' s;
     many1 is_word s1
   }"

text \<open>\<open>/\s*Calling function \w+\s*/g\<close>, the pattern that deletes the natural-language form.\<close>

definition simple_call_text_at :: "string \<Rightarrow> (unit \<times> string) option" where
  "simple_call_text_at s = do {
     s1 \<leftarrow> lit ''Calling function '' (dropWhile is_space s);
     (name, s2) \<leftarrow> many1 is_word s1;
     Some ((), dropWhile is_space s2)
   }"

section \<open>Values, errors and the canonical response\<close>

text \<open>What \<open>JSON.parse\<close> returns. Numbers are kept as integers: the source only reads
  properties of a parsed value and tests it for truthiness. An object is the list of its
  properties, every key once.\<close>

datatype json =
    JNull
  | JBool bool
  | JNumber int
  | JString string
  | JArray "json list"
  | JObject "(string \<times> json) list"

text \<open>A thrown value: the name of its class and its message.\<close>

datatype error = JsError (error_class: string) (error_message: string)

text \<open>\<open>JSON.parse\<close> belongs to the language, not to the repository: it is a parameter \<open>parse\<close>
  of every function that calls it, returning the value or the \<open>SyntaxError\<close> thrown.\<close>

type_synonym json_parse = "string \<Rightarrow> error + json"

text \<open>JavaScript truthiness of a parsed value.\<close>

fun truthy :: "json \<Rightarrow> bool" where
  "truthy JNull = False"
| "truthy (JBool b) = b"
| "truthy (JNumber n) = (n \<noteq> 0)"
| "truthy (JString s) = (s \<noteq> [])"
| "truthy (JArray xs) = True"
| "truthy (JObject kvs) = True"

text \<open>\<open>v.key\<close> for a parsed value: \<open>Inl\<close> is the \<open>TypeError\<close> of reading a property of \<open>null\<close>,
  \<open>Inr None\<close> is \<open>undefined\<close>.\<close>

fun get_prop :: "json \<Rightarrow> string \<Rightarrow> error + json option" where
  "get_prop JNull k = Inl (JsError ''TypeError'' (''Cannot read properties of null (reading '' @ k @ '')''))"
| "get_prop (JObject kvs) k = Inr (map_of kvs k)"
| "get_prop v k = Inr None"

text \<open>The identifier of a function call. The source builds the identifiers of extracted calls
  from a fixed prefix, \<open>Date.now()\<close> and \<open>Math.random()\<close>; \<open>Generated prefix\<close> stands for such
  an identifier, \<open>Given s\<close> for one supplied by the backend.\<close>

datatype call_id = Generated string | Given string

text \<open>A function call. The name of a call of the block form is whatever the property \<open>action\<close>
  of the parsed object holds, \<open>None\<close> when it is \<open>undefined\<close>.\<close>

record function_call =
  fc_id :: call_id
  fc_name :: "json option"
  fc_args :: json

text \<open>The parts the normalizers push: \<open>{ text }\<close>, \<open>{ functionCall }\<close> and the thought part
  \<open>{ thought: true, text }\<close>.\<close>

datatype part =
    TextPart string
  | FunctionCallPart function_call
  | ThoughtPart string

datatype finish_reason = STOP | OTHER

record usage_metadata =
  promptTokenCount :: int
  candidatesTokenCount :: int
  totalTokenCount :: int

text \<open>\<open>GenerateContentResponse\<close>, with \<open>candidates[0].content.parts\<close> as \<open>parts\<close>.\<close>

record generate_content_response =
  parts :: "part list"
  finishReason :: finish_reason
  usageMetadata :: "usage_metadata option"
  response_text :: string
  functionCalls :: "function_call list option"

section \<open>The backend's reply\<close>

record tool_call =
  tc_type :: string
  tc_id :: string
  tc_name :: string
  tc_arguments :: string

record completion_usage =
  prompt_tokens :: int
  completion_tokens :: int
  total_tokens :: int

record chat_message =
  content :: "string option"
  tool_calls :: "tool_call list option"

record chat_choice =
  message :: chat_message
  finish_reason :: "string option"

record chat_completion =
  choices :: "chat_choice list"
  usage :: "completion_usage option"

section \<open>The non-streaming normalizer\<close>

text \<open>The three local variables \<open>parts\<close>, \<open>functionCalls\<close> and \<open>cleanedTextContent\<close> of
  \<open>convertToGeminiResponse\<close> and of one round of \<open>convertStreamToGeminiFormat\<close>.\<close>

record extraction =
  ex_parts :: "part list"
  ex_calls :: "function_call list"
  ex_text :: string

text \<open>\<open>parts.push({ functionCall }); functionCalls.push(functionCall)\<close>.\<close>

definition push_call :: "function_call \<Rightarrow> extraction \<Rightarrow> extraction" where
  "push_call fc st = st\<lparr>ex_parts := ex_parts st @ [FunctionCallPart fc], ex_calls := ex_calls st @ [fc]\<rparr>"

text \<open>The body of the loop over the block matches: the \<open>try\<close> parses the trimmed body and
  reads \<open>action\<close> and \<open>action_input\<close>; whatever is thrown is caught and the block adds nothing.\<close>

definition block_call :: "json_parse \<Rightarrow> string \<Rightarrow> string \<Rightarrow> function_call option" where
  "block_call parse pfx body =
     (case parse (trim body) of
        Inl e \<Rightarrow> None
      | Inr functionCallData \<Rightarrow>
          (case get_prop functionCallData ''action'' of
             Inl e \<Rightarrow> None
           | Inr action \<Rightarrow>
               (case get_prop functionCallData ''action_input'' of
                  Inl e \<Rightarrow> None
                | Inr action_input \<Rightarrow>
                    Some \<lparr>fc_id = Generated pfx, fc_name = action,
                          fc_args = (case action_input of
                                       None \<Rightarrow> JObject []
                                     | Some a \<Rightarrow> if truthy a then a else JObject [])\<rparr>)))"

fun block_loop :: "json_parse \<Rightarrow> string \<Rightarrow> string list \<Rightarrow> extraction \<Rightarrow> extraction" where
  "block_loop parse pfx [] st = st"
| "block_loop parse pfx (body # bodies) st =
     block_loop parse pfx bodies
       (case block_call parse pfx body of None \<Rightarrow> st | Some fc \<Rightarrow> push_call fc st)"

definition tool_call_of :: "string \<Rightarrow> string \<times> string \<times> string \<Rightarrow> function_call" where
  "tool_call_of pfx m =
     (case m of (functionName, paramName, paramValue) \<Rightarrow>
        \<lparr>fc_id = Generated pfx, fc_name = Some (JString functionName),
         fc_args = JObject [(paramName, JString paramValue)]\<rparr>)"

fun tool_call_loop :: "string \<Rightarrow> (string \<times> string \<times> string) list \<Rightarrow> extraction \<Rightarrow> extraction" where
  "tool_call_loop pfx [] st = st"
| "tool_call_loop pfx (m # ms) st = tool_call_loop pfx ms (push_call (tool_call_of pfx m) st)"

definition simple_call_of :: "string \<Rightarrow> function_call" where
  "simple_call_of functionName =
     \<lparr>fc_id = Generated ''grok_simple_'', fc_name = Some (JString functionName), fc_args = JObject []\<rparr>"

fun simple_call_loop :: "string list \<Rightarrow> extraction \<Rightarrow> extraction" where
  "simple_call_loop [] st = st"
| "simple_call_loop (m # ms) st = simple_call_loop ms (push_call (simple_call_of m) st)"

text \<open>\<open>message.content || ''\<close>. The guards \<open>message.content && message.content.includes(...)\<close>
  of the source are \<open>includes_str\<close> on this string: the empty string includes no marker.\<close>

definition content_or_empty :: "string option \<Rightarrow> string" where
  "content_or_empty c = (case c of None \<Rightarrow> [] | Some s \<Rightarrow> s)"

text \<open>Lines 183 to 203: the block form.\<close>

definition block_pass :: "json_parse \<Rightarrow> string \<Rightarrow> extraction \<Rightarrow> extraction" where
  "block_pass parse c st =
     (if includes_str c ''[function_call]'' then
        (block_loop parse ''grok_'' (match_all block_at c) st)
          \<lparr>ex_text := trim (remove_all block_at c)\<rparr>
      else st)"

text \<open>Lines 206 to 224: the inline form.\<close>

definition tool_call_pass :: "string \<Rightarrow> extraction \<Rightarrow> extraction" where
  "tool_call_pass c st =
     (if includes_str c ''[tool_call:'' then
        (tool_call_loop ''grok_mini_'' (match_all tool_call_at c) st)
          \<lparr>ex_text := trim (remove_all tool_call_text_at c)\<rparr>
      else st)"

text \<open>Lines 227 to 243: the natural-language form.\<close>

definition simple_call_pass :: "string \<Rightarrow> extraction \<Rightarrow> extraction" where
  "simple_call_pass c st =
     (if includes_str c ''Calling function '' then
        (simple_call_loop (match_all simple_call_at c) st)
          \<lparr>ex_text := trim (remove_all simple_call_text_at c)\<rparr>
      else st)"

text \<open>Lines 246 to 248: \<open>if (cleanedTextContent) parts.push({ text: cleanedTextContent })\<close>.\<close>

definition push_text :: "extraction \<Rightarrow> extraction" where
  "push_text st = (if ex_text st \<noteq> [] then st\<lparr>ex_parts := ex_parts st @ [TextPart (ex_text st)]\<rparr> else st)"

text \<open>Lines 251 to 263: the structured calls of the reply. \<open>JSON.parse\<close> is outside any
  \<open>try\<close> here, so what it throws leaves the function.\<close>

fun native_loop :: "json_parse \<Rightarrow> tool_call list \<Rightarrow> extraction \<Rightarrow> error + extraction" where
  "native_loop parse [] st = Inr st"
| "native_loop parse (toolCall # rest) st =
     (if tc_type toolCall = ''function'' then
        (case parse (if tc_arguments toolCall \<noteq> [] then tc_arguments toolCall else ''{}'') of
           Inl e \<Rightarrow> Inl e
         | Inr a \<Rightarrow>
             native_loop parse rest
               (push_call \<lparr>fc_id = Given (tc_id toolCall),
                           fc_name = Some (JString (tc_name toolCall)), fc_args = a\<rparr> st))
      else native_loop parse rest st)"

definition convert_usage :: "completion_usage option \<Rightarrow> usage_metadata option" where
  "convert_usage u = map_option (\<lambda>u. \<lparr>promptTokenCount = prompt_tokens u,
       candidatesTokenCount = completion_tokens u, totalTokenCount = total_tokens u\<rparr>) u"

definition convert_finish :: "string option \<Rightarrow> finish_reason" where
  "convert_finish r = (if r = Some ''stop'' then STOP else OTHER)"

definition convertToGeminiResponse :: "json_parse \<Rightarrow> chat_completion \<Rightarrow> error + generate_content_response" where
  "convertToGeminiResponse parse response =
     (case choices response of
        [] \<Rightarrow> Inl (JsError ''TypeError'' ''Cannot read properties of undefined (reading 'message')'')
      | choice # others \<Rightarrow>
          (let c = content_or_empty (content (message choice));
               st = push_text (simple_call_pass c (tool_call_pass c (block_pass parse c
                      \<lparr>ex_parts = [], ex_calls = [], ex_text = c\<rparr>)))
           in case native_loop parse
                     (case tool_calls (message choice) of None \<Rightarrow> [] | Some tcs \<Rightarrow> tcs) st of
                Inl e \<Rightarrow> Inl e
              | Inr st' \<Rightarrow>
                  Inr \<lparr>parts = ex_parts st',
                       finishReason = convert_finish (finish_reason choice),
                       usageMetadata = convert_usage (usage response),
                       response_text = ex_text st',
                       functionCalls = (if ex_calls st' \<noteq> [] then Some (ex_calls st') else None)\<rparr>))"

section \<open>The streaming normalizer\<close>

record delta_function =
  df_name :: "string option"
  df_arguments :: "string option"

record delta_tool_call =
  dtc_type :: "string option"
  dtc_id :: "string option"
  dtc_function :: "delta_function option"

record chunk_delta =
  delta_content :: "string option"
  reasoning_content :: "string option"
  delta_tool_calls :: "delta_tool_call list option"

record chunk_choice =
  delta :: chunk_delta
  chunk_finish_reason :: "string option"

record chat_completion_chunk =
  chunk_choices :: "chunk_choice list"

text \<open>Lines 306 to 314: a non-empty \<open>reasoning_content\<close> becomes a thought part.\<close>

definition push_thought :: "string option \<Rightarrow> extraction \<Rightarrow> extraction" where
  "push_thought r st =
     (if content_or_empty r \<noteq> [] then
        st\<lparr>ex_parts := ex_parts st @ [ThoughtPart (''**Thinking** '' @ content_or_empty r)]\<rparr>
      else st)"

text \<open>Lines 325 to 347. The pass works on the pair of \<open>accumulatedContent\<close> and the round's
  locals; \<open>d\<close> is \<open>delta.content || ''\<close>.\<close>

definition stream_block_pass :: "json_parse \<Rightarrow> string \<Rightarrow> string \<times> extraction \<Rightarrow> string \<times> extraction" where
  "stream_block_pass parse d p =
     (case p of (accumulatedContent, st) \<Rightarrow>
        if includes_str accumulatedContent ''[function_call]''
           \<and> includes_str accumulatedContent ''[/function_call]'' then
          (trim (remove_all block_at accumulatedContent),
           (block_loop parse ''grok_stream_'' (match_all block_at accumulatedContent) st)
             \<lparr>ex_text := trim (remove_all block_at d)\<rparr>)
        else (accumulatedContent, st))"

text \<open>Lines 350 to 370.\<close>

definition stream_tool_call_pass :: "string \<Rightarrow> string \<times> extraction \<Rightarrow> string \<times> extraction" where
  "stream_tool_call_pass d p =
     (case p of (accumulatedContent, st) \<Rightarrow>
        if includes_str accumulatedContent ''[tool_call:'' then
          (trim (remove_all tool_call_text_at accumulatedContent),
           (tool_call_loop ''grok_mini_stream_'' (match_all tool_call_at accumulatedContent) st)
             \<lparr>ex_text := trim (remove_all tool_call_text_at d)\<rparr>)
        else (accumulatedContent, st))"

text \<open>Lines 378 to 390: the structured calls of a delta; \<open>JSON.parse\<close> is again outside any
  \<open>try\<close>.\<close>

fun stream_native_loop :: "json_parse \<Rightarrow> delta_tool_call list \<Rightarrow> extraction \<Rightarrow> error + extraction" where
  "stream_native_loop parse [] st = Inr st"
| "stream_native_loop parse (toolCall # rest) st =
     (case dtc_function toolCall of
        Some f \<Rightarrow>
          if dtc_type toolCall = Some ''function'' then
            (case (if content_or_empty (df_arguments f) \<noteq> []
                   then parse (content_or_empty (df_arguments f)) else Inr (JObject [])) of
               Inl e \<Rightarrow> Inl e
             | Inr a \<Rightarrow>
                 stream_native_loop parse rest
                   (push_call \<lparr>fc_id = (if content_or_empty (dtc_id toolCall) \<noteq> []
                                         then Given (content_or_empty (dtc_id toolCall))
                                         else Generated ''tool_''),
                               fc_name = Some (JString (content_or_empty (df_name f))),
                               fc_args = a\<rparr> st))
          else stream_native_loop parse rest st
      | None \<Rightarrow> stream_native_loop parse rest st)"

text \<open>One round of the \<open>for await\<close> loop for a chunk that has a first choice: the new
  \<open>accumulatedContent\<close>, and the error thrown or the response yielded, if any.\<close>

definition stream_round ::
  "json_parse \<Rightarrow> string \<Rightarrow> chunk_choice \<Rightarrow> string \<times> (error + generate_content_response option)" where
  "stream_round parse accumulatedContent choice =
     (let d = content_or_empty (delta_content (delta choice));
          st0 = push_thought (reasoning_content (delta choice))
                  \<lparr>ex_parts = [], ex_calls = [], ex_text = d\<rparr>;
          (acc, st) = stream_tool_call_pass d (stream_block_pass parse d (accumulatedContent @ d, st0))
      in (acc,
          case stream_native_loop parse
                 (case delta_tool_calls (delta choice) of None \<Rightarrow> [] | Some tcs \<Rightarrow> tcs)
                 (push_text st) of
            Inl e \<Rightarrow> Inl e
          | Inr st' \<Rightarrow>
              Inr (if ex_parts st' \<noteq> [] then
                     Some \<lparr>parts = ex_parts st',
                           finishReason = convert_finish (chunk_finish_reason choice),
                           usageMetadata = None,
                           response_text = ex_text st',
                           functionCalls = (if ex_calls st' \<noteq> [] then Some (ex_calls st') else None)\<rparr>
                   else None)))"

text \<open>The generator: the responses yielded, in order, and the error that ended it, if any.
  A chunk without a first choice is skipped.\<close>

fun stream_loop ::
  "json_parse \<Rightarrow> string \<Rightarrow> chat_completion_chunk list \<Rightarrow> generate_content_response list \<times> error option" where
  "stream_loop parse accumulatedContent [] = ([], None)"
| "stream_loop parse accumulatedContent (chunk # rest) =
     (case chunk_choices chunk of
        [] \<Rightarrow> stream_loop parse accumulatedContent rest
      | choice # others \<Rightarrow>
          (case stream_round parse accumulatedContent choice of
             (acc, Inl e) \<Rightarrow> ([], Some e)
           | (acc, Inr None) \<Rightarrow> stream_loop parse acc rest
           | (acc, Inr (Some r)) \<Rightarrow>
               (case stream_loop parse acc rest of (rs, e) \<Rightarrow> (r # rs, e))))"

definition convertStreamToGeminiFormat ::
  "json_parse \<Rightarrow> chat_completion_chunk list \<Rightarrow> generate_content_response list \<times> error option" where
  "convertStreamToGeminiFormat parse stream = stream_loop parse [] stream"

text \<open>The text a token of the block scan stands for, and the delta the streamed path yields
  for a chunk of plain text.\<close>

definition block_token_text :: "string token \<Rightarrow> string" where
  "block_token_text t =
     (case t of Lit c \<Rightarrow> [c] | Match body \<Rightarrow> ''[function_call]'' @ body @ ''[/function_call]'')"

definition plain_delta :: "string \<Rightarrow> generate_content_response" where
  "plain_delta d =
     \<lparr>parts = [TextPart d], finishReason = OTHER, usageMetadata = None,
      response_text = d, functionCalls = None\<rparr>"

text \<open>\<open>accumulatedContent\<close> after the two passes of a round, from the buffer the round starts
  its scans with.\<close>

definition buffer_after :: "string \<Rightarrow> string" where
  "buffer_after buf =
     (let b = (if includes_str buf ''[function_call]'' \<and> includes_str buf ''[/function_call]''
               then trim (remove_all block_at buf) else buf)
      in if includes_str b ''[tool_call:'' then trim (remove_all tool_call_text_at b) else b)"

text \<open>What the two modes are compared on: the text parts of a part list, concatenated, and
  its function-call parts. A thought part is not a text part.\<close>

fun text_of_parts :: "part list \<Rightarrow> string" where
  "text_of_parts [] = []"
| "text_of_parts (TextPart t # ps) = t @ text_of_parts ps"
| "text_of_parts (p # ps) = text_of_parts ps"

fun calls_of_parts :: "part list \<Rightarrow> function_call list" where
  "calls_of_parts [] = []"
| "calls_of_parts (FunctionCallPart fc # ps) = fc # calls_of_parts ps"
| "calls_of_parts (p # ps) = calls_of_parts ps"

text \<open>A backend that delivers the same text in both modes: the streamed chunks carry the
  pieces of the text, the non-streamed reply carries their concatenation.\<close>

definition text_chunk :: "string \<Rightarrow> chat_completion_chunk" where
  "text_chunk d =
     \<lparr>chunk_choices = [\<lparr>delta = \<lparr>delta_content = Some d, reasoning_content = None,
                                   delta_tool_calls = None\<rparr>,
                         chunk_finish_reason = None\<rparr>]\<rparr>"

definition text_reply :: "string \<Rightarrow> chat_completion" where
  "text_reply c =
     \<lparr>choices = [\<lparr>message = \<lparr>content = Some c, tool_calls = None\<rparr>, finish_reason = Some ''stop''\<rparr>],
      usage = None\<rparr>"

text \<open>The two modes on the same backend text: the text parts and the function calls of all
  deltas of the streamed path, for a text delivered in the pieces \<open>ds\<close>, and those of the
  non-streamed response for the whole text.\<close>

definition streamed_text :: "json_parse \<Rightarrow> string list \<Rightarrow> string" where
  "streamed_text parse ds =
     concat (map (\<lambda>r. text_of_parts (parts r))
               (fst (convertStreamToGeminiFormat parse (map text_chunk ds))))"

definition streamed_calls :: "json_parse \<Rightarrow> string list \<Rightarrow> function_call list" where
  "streamed_calls parse ds =
     concat (map (\<lambda>r. calls_of_parts (parts r))
               (fst (convertStreamToGeminiFormat parse (map text_chunk ds))))"

definition replied_text :: "json_parse \<Rightarrow> string \<Rightarrow> string" where
  "replied_text parse c =
     (case convertToGeminiResponse parse (text_reply c) of
        Inr r \<Rightarrow> text_of_parts (parts r)
      | Inl e \<Rightarrow> [])"

definition replied_calls :: "json_parse \<Rightarrow> string \<Rightarrow> function_call list" where
  "replied_calls parse c =
     (case convertToGeminiResponse parse (text_reply c) of
        Inr r \<Rightarrow> calls_of_parts (parts r)
      | Inl e \<Rightarrow> [])"

section \<open>The canonical request and its translation\<close>

text \<open>The fields of a \<open>Part\<close> that \<open>extractTextFromParts\<close> reads. Of a function response and of a
  function call only the name is read; \<open>Some None\<close> is such a field whose name is \<open>undefined\<close>.\<close>

record request_part =
  part_text :: "string option"
  part_functionResponse :: "string option option"
  part_functionCall :: "string option option"

text \<open>A name inside a template literal.\<close>

definition template_name :: "string option \<Rightarrow> string" where
  "template_name n = (case n of None \<Rightarrow> ''undefined'' | Some s \<Rightarrow> s)"

definition part_to_text :: "request_part \<Rightarrow> string" where
  "part_to_text p =
     (if content_or_empty (part_text p) \<noteq> [] then content_or_empty (part_text p)
      else case part_functionResponse p of
             Some n \<Rightarrow> ''Function '' @ template_name n @ '' executed''
           | None \<Rightarrow>
               (case part_functionCall p of
                  Some n \<Rightarrow> ''Calling function '' @ template_name n
                | None \<Rightarrow> []))"

text \<open>\<open>Array.prototype.join\<close> on strings.\<close>

fun join :: "string \<Rightarrow> string list \<Rightarrow> string" where
  "join sep [] = []"
| "join sep [x] = x"
| "join sep (x # y # ys) = x @ sep @ join sep (y # ys)"

definition extractTextFromParts :: "request_part list \<Rightarrow> string" where
  "extractTextFromParts ps = join '' '' (filter (\<lambda>t. t \<noteq> []) (map part_to_text ps))"

text \<open>A \<open>Content\<close>: an object with the keys \<open>role\<close> and \<open>parts\<close>, which is what \<open>isContent\<close>
  tests. An element of \<open>contents\<close> is a string, a \<open>Content\<close>, or something else (a bare part).\<close>

record content_obj =
  role :: "string option"
  content_parts :: "request_part list option"

datatype content_item = StringItem string | ContentItem content_obj | OtherItem

datatype content_list_union = One content_item | Many "content_item list"

record function_declaration =
  fd_name :: string
  fd_description :: "string option"
  fd_parameters :: "json option"

record tool =
  functionDeclarations :: "function_declaration list option"

record generate_content_config =
  temperature :: "real option"
  maxOutputTokens :: "real option"
  topP :: "real option"
  systemInstruction :: "content_item option"
  tools :: "tool list option"

record generate_content_parameters =
  model :: string
  contents :: "content_list_union option"
  config :: "generate_content_config option"

record message_param =
  mp_role :: string
  mp_content :: string

record openai_tool =
  ot_type :: string
  ot_function :: function_declaration

record chat_completion_create_params =
  cp_model :: string
  cp_messages :: "message_param list"
  cp_temperature :: "real option"
  cp_max_tokens :: "real option"
  cp_top_p :: "real option"
  cp_tools :: "openai_tool list option"
  cp_tool_choice :: "string option"
  cp_stream :: bool

text \<open>The truth value of \<open>request.contents\<close>: \<open>undefined\<close> and the empty string are falsy,
  every array and every object is truthy.\<close>

definition contents_truthy :: "content_list_union option \<Rightarrow> bool" where
  "contents_truthy c \<longleftrightarrow> c \<noteq> None \<and> c \<noteq> Some (One (StringItem []))"

definition content_array :: "content_list_union option \<Rightarrow> content_item list" where
  "content_array c = (case c of Some (Many xs) \<Rightarrow> xs | Some (One x) \<Rightarrow> [x] | None \<Rightarrow> [])"

text \<open>Lines 63 to 86: the messages one element of \<open>contents\<close> adds.\<close>

definition messages_of_item :: "content_item \<Rightarrow> message_param list" where
  "messages_of_item item =
     (case item of
        StringItem s \<Rightarrow> [\<lparr>mp_role = ''user'', mp_content = s\<rparr>]
      | ContentItem c \<Rightarrow>
          (let textContent = extractTextFromParts (case content_parts c of None \<Rightarrow> [] | Some ps \<Rightarrow> ps)
           in if role c = Some ''user'' then [\<lparr>mp_role = ''user'', mp_content = textContent\<rparr>]
              else if role c = Some ''model'' \<and> textContent \<noteq> []
                   then [\<lparr>mp_role = ''assistant'', mp_content = textContent\<rparr>]
              else [])
      | OtherItem \<Rightarrow> [])"

text \<open>Lines 98 to 113: the message the system instruction puts in front.\<close>

definition system_messages :: "generate_content_config option \<Rightarrow> message_param list" where
  "system_messages cfg =
     (case cfg of
        None \<Rightarrow> []
      | Some c \<Rightarrow>
          (case systemInstruction c of
             Some (StringItem s) \<Rightarrow> if s \<noteq> [] then [\<lparr>mp_role = ''system'', mp_content = s\<rparr>] else []
           | Some (ContentItem i) \<Rightarrow>
               (case content_parts i of
                  Some ps \<Rightarrow>
                    if extractTextFromParts ps \<noteq> []
                    then [\<lparr>mp_role = ''system'', mp_content = extractTextFromParts ps\<rparr>] else []
                | None \<Rightarrow> [])
           | Some OtherItem \<Rightarrow> []
           | None \<Rightarrow> []))"

definition convertToolsToOpenAIFormat :: "tool list \<Rightarrow> openai_tool list" where
  "convertToolsToOpenAIFormat geminiTools =
     concat (map (\<lambda>t. case functionDeclarations t of
                         None \<Rightarrow> []
                       | Some fs \<Rightarrow> map (\<lambda>func. \<lparr>ot_type = ''function'', ot_function = func\<rparr>) fs)
                 geminiTools)"

definition convertToOpenAIRequest :: "generate_content_parameters \<Rightarrow> chat_completion_create_params" where
  "convertToOpenAIRequest request =
     (let messages = (if contents_truthy (contents request)
                      then concat (map messages_of_item (content_array (contents request))) else []);
          cfg = config request;
          ts = (case cfg of None \<Rightarrow> None | Some c \<Rightarrow> tools c)
      in \<lparr>cp_model = (if model request \<noteq> [] then model request else ''grok-beta''),
          cp_messages = system_messages cfg @ messages,
          cp_temperature = (case cfg of None \<Rightarrow> None | Some c \<Rightarrow> temperature c),
          cp_max_tokens = (case cfg of None \<Rightarrow> None | Some c \<Rightarrow> maxOutputTokens c),
          cp_top_p = (case cfg of None \<Rightarrow> None | Some c \<Rightarrow> topP c),
          cp_tools = (case ts of
                        Some (t # r) \<Rightarrow> Some (convertToolsToOpenAIFormat (t # r))
                      | Some [] \<Rightarrow> None
                      | None \<Rightarrow> None),
          cp_tool_choice = (case ts of Some (t # r) \<Rightarrow> Some ''auto'' | Some [] \<Rightarrow> None | None \<Rightarrow> None),
          cp_stream = False\<rparr>)"

section \<open>The adapter's operations\<close>

text \<open>\<open>this.client.chat.completions.create\<close> is the network: a parameter \<open>backend\<close> that maps
  the request sent to the reply received or to the error the call fails with.\<close>

type_synonym backend = "chat_completion_create_params \<Rightarrow> error + chat_completion"

text \<open>\<open>generateContent\<close>: the requests sent over the network, in order, and the outcome.\<close>

definition generateContent ::
  "json_parse \<Rightarrow> backend \<Rightarrow> generate_content_parameters
     \<Rightarrow> chat_completion_create_params list \<times> (error + generate_content_response)" where
  "generateContent parse backend request =
     (let openaiRequest = convertToOpenAIRequest request
      in ([openaiRequest],
          case backend openaiRequest of
            Inl e \<Rightarrow> Inl e
          | Inr response \<Rightarrow> convertToGeminiResponse parse response))"

text \<open>\<open>Math.ceil(n / 4)\<close> for a length \<open>n\<close>.\<close>

definition ceil_quarter :: "nat \<Rightarrow> int" where
  "ceil_quarter n = \<lceil>real n / 4\<rceil>"

text \<open>\<open>estimateTokens\<close> of the file tool.\<close>

definition estimateTokens :: "string \<Rightarrow> int" where
  "estimateTokens s = ceil_quarter (length s)"

text \<open>\<open>countTokens\<close>; the result is the field \<open>totalTokens\<close>.\<close>

definition countTokens :: "content_list_union option \<Rightarrow> int" where
  "countTokens request_contents =
     (if \<not> contents_truthy request_contents then 0
      else
        (let textContent =
               join '' '' (map (\<lambda>c. case c of
                                      StringItem s \<Rightarrow> s
                                    | ContentItem c \<Rightarrow>
                                        extractTextFromParts
                                          (case content_parts c of None \<Rightarrow> [] | Some ps \<Rightarrow> ps)
                                    | OtherItem \<Rightarrow> [])
                               (content_array request_contents))
         in ceil_quarter (length textContent)))"

text \<open>\<open>embedContent\<close> ignores its request and throws \<open>new Error(...)\<close>.\<close>

definition embedContent :: "'request \<Rightarrow> error + real list" where
  "embedContent request = Inl (JsError ''Error'' ''Embeddings not supported by Grok'')"

section \<open>Smart file selection\<close>

text \<open>\<open>/\d+/g\<close>.\<close>

definition digits_at :: "string \<Rightarrow> (string \<times> string) option" where
  "digits_at s = many1 is_digit s"

text \<open>\<open>parseInt(match, 10)\<close> on a run of digits. For a run too long for a double the source
  gets a rounded value; rounding is monotonic and fixes 0 and 100, so the range test below
  decides the same on the exact value.\<close>

definition parseInt10 :: "string \<Rightarrow> nat" where
  "parseInt10 ds = foldl (\<lambda>n d. 10 * n + (of_char d - 48)) 0 ds"

definition parseSelectionResponse :: "string \<Rightarrow> nat list" where
  "parseSelectionResponse response =
     filter (\<lambda>num. num > 0 \<and> num \<le> 100) (map parseInt10 (match_all digits_at response))"

text \<open>\<open>sortedFiles[num - 1]\<close>, \<open>undefined\<close> out of range. The source only indexes with
  \<open>num > 0\<close>.\<close>

definition file_at :: "string list \<Rightarrow> nat \<Rightarrow> string option" where
  "file_at sortedFiles num =
     (if num - 1 < length sortedFiles then Some (sortedFiles ! (num - 1)) else None)"

text \<open>Lines 541 to 551, from the text of the model's answer (\<open>None\<close> when it has none) to the
  files to read: \<open>filter(Boolean)\<close> drops \<open>undefined\<close> and the empty string.\<close>

definition select_files :: "string list \<Rightarrow> string option \<Rightarrow> string list" where
  "select_files sortedFiles responseText =
     (let selectedNumbers = parseSelectionResponse (content_or_empty responseText);
          selectedFiles = take 20 (filter (\<lambda>f. f \<noteq> [])
                            (List.map_filter (file_at sortedFiles) selectedNumbers))
      in if selectedFiles = [] then selectedFiles @ take 10 sortedFiles else selectedFiles)"

text \<open>What \<open>processSingleFileContent\<close> does for a path: it throws, or returns content that is
  not a string, or returns a string.\<close>

datatype read_result = ReadThrows | NotString | StringContent string

text \<open>The replacement text of \<open>format.replace('{filePath}', path)\<close>: in a replacement string
  \<open>$$\<close> stands for \<open>$\<close>, \<open>$&\<close> for the matched text, \<open>$`\<close> and \<open>$'\<close> for the text before and
  after the match.\<close>

fun expand_replacement :: "string \<Rightarrow> string \<Rightarrow> string \<Rightarrow> string \<Rightarrow> string" where
  "expand_replacement matched pre post [] = []"
| "expand_replacement matched pre post [c] = [c]"
| "expand_replacement matched pre post (c # d # r) =
     (if c = CHR ''$'' \<and> d = CHR ''$'' then CHR ''$'' # expand_replacement matched pre post r
      else if c = CHR ''$'' \<and> d = CHR ''&'' then matched @ expand_replacement matched pre post r
      else if c = CHR ''$'' \<and> d = CHR 0x60 then pre @ expand_replacement matched pre post r
      else if c = CHR ''$'' \<and> d = CHR 0x27 then post @ expand_replacement matched pre post r
      else c # expand_replacement matched pre post (d # r))"

text \<open>\<open>DEFAULT_OUTPUT_SEPARATOR_FORMAT.replace('{filePath}', relativePathForDisplay)\<close> with the
  format \<open>--- {filePath} ---\<close>.\<close>

definition separator :: "string \<Rightarrow> string" where
  "separator relativePathForDisplay =
     ''--- '' @ expand_replacement ''{filePath}'' ''--- '' '' ---'' relativePathForDisplay @ '' ---''"

definition maxTokenBudget :: int where
  "maxTokenBudget = 100000"

text \<open>The variables of stage 4. \<open>reads\<close> and \<open>appended\<close> are not variables of the source but
  its trace: the paths handed to \<open>processSingleFileContent\<close>, and for each part pushed the
  file text put into it and whether the truncation marker follows it.\<close>

record budget_state =
  contentParts :: "string list"
  processedFilesRelativePaths :: "string list"
  totalTokens :: int
  reads :: "string list"
  appended :: "(string \<times> bool) list"

text \<open>Lines 559 to 590. \<open>aborted i\<close> tells whether the signal is aborted when round \<open>i\<close>
  starts, \<open>relative\<close> is \<open>path.relative(this.targetDir, _).replace(/\\/g, '/')\<close> and \<open>fs\<close> is
  \<open>processSingleFileContent\<close>.\<close>

fun budgeted_read ::
  "(nat \<Rightarrow> bool) \<Rightarrow> (string \<Rightarrow> string) \<Rightarrow> (string \<Rightarrow> read_result) \<Rightarrow> nat \<Rightarrow> string list
     \<Rightarrow> budget_state \<Rightarrow> budget_state" where
  "budgeted_read aborted relative fs i [] st = st"
| "budgeted_read aborted relative fs i (filePath # rest) st =
     (if aborted i then st
      else
        (case fs filePath of
           StringContent llmContent \<Rightarrow>
             (let contentTokens = estimateTokens llmContent in
              if totalTokens st + contentTokens > maxTokenBudget then
                (let remainingTokens = maxTokenBudget - totalTokens st;
                     truncatedLength = max 0 (remainingTokens * 4);
                     truncatedContent = take (nat truncatedLength) llmContent
                 in st\<lparr>contentParts := contentParts st @
                          [separator (relative filePath) @ [CHR 0x0A, CHR 0x0A] @ truncatedContent
                             @ [CHR 0x0A, CHR 0x0A] @ ''[Content truncated due to token limits]''
                             @ [CHR 0x0A, CHR 0x0A]],
                        processedFilesRelativePaths :=
                          processedFilesRelativePaths st @ [relative filePath],
                        reads := reads st @ [filePath],
                        appended := appended st @ [(truncatedContent, True)]\<rparr>)
              else
                budgeted_read aborted relative fs (Suc i) rest
                  (st\<lparr>contentParts := contentParts st @
                          [separator (relative filePath) @ [CHR 0x0A, CHR 0x0A] @ llmContent
                             @ [CHR 0x0A, CHR 0x0A]],
                       processedFilesRelativePaths :=
                          processedFilesRelativePaths st @ [relative filePath],
                       totalTokens := totalTokens st + contentTokens,
                       reads := reads st @ [filePath],
                       appended := appended st @ [(llmContent, False)]\<rparr>))
         | NotString \<Rightarrow>
             budgeted_read aborted relative fs (Suc i) rest (st\<lparr>reads := reads st @ [filePath]\<rparr>)
         | ReadThrows \<Rightarrow>
             budgeted_read aborted relative fs (Suc i) rest (st\<lparr>reads := reads st @ [filePath]\<rparr>)))"

text \<open>Stages 3 and 4 of \<open>executeWithSmartSelection\<close>, from the model's answer on: the files
  selected are read under the budget, starting from empty lists and a count of zero.\<close>

definition initial_budget_state :: budget_state where
  "initial_budget_state =
     \<lparr>contentParts = [], processedFilesRelativePaths = [], totalTokens = 0,
      reads = [], appended = []\<rparr>"

definition smart_selection_read ::
  "(nat \<Rightarrow> bool) \<Rightarrow> (string \<Rightarrow> string) \<Rightarrow> (string \<Rightarrow> read_result) \<Rightarrow> string list
     \<Rightarrow> string option \<Rightarrow> budget_state" where
  "smart_selection_read aborted relative fs sortedFiles responseText =
     budgeted_read aborted relative fs 0 (select_files sortedFiles responseText) initial_budget_state"

text \<open>The part pushed for a file whose text is cut, and the estimated tokens of the file
  texts pushed so far.\<close>

definition truncated_part :: "string \<Rightarrow> string \<Rightarrow> string" where
  "truncated_part relativePathForDisplay truncatedContent =
     separator relativePathForDisplay @ [CHR 0x0A, CHR 0x0A] @ truncatedContent
       @ [CHR 0x0A, CHR 0x0A] @ ''[Content truncated due to token limits]'' @ [CHR 0x0A, CHR 0x0A]"

definition appended_tokens :: "budget_state \<Rightarrow> int" where
  "appended_tokens st = sum_list (map (\<lambda>x. estimateTokens (fst x)) (appended st))"

text \<open>The \<open>llmContent\<close> returned.\<close>

definition llmContent_of :: "budget_state \<Rightarrow> string list" where
  "llmContent_of st =
     (if contentParts st \<noteq> [] then contentParts st
      else [''No files could be read with the available token budget.''])"

section \<open>Concrete parameters for instances\<close>

text \<open>A \<open>JSON.parse\<close> that knows one object text and rejects every other input, a backend that
  answers every request with the text \<open>ok\<close> and one that fails on every request, a request
  with an empty content list, and a file of a given length.\<close>

definition foo_json :: string where
  "foo_json = ''{\"action\":\"foo\",\"action_input\":{\"x\":1}}''"

definition parse_foo :: json_parse where
  "parse_foo s =
     (if s = foo_json
      then Inr (JObject [(''action'', JString ''foo''), (''action_input'', JObject [(''x'', JNumber 1)])])
      else Inl (JsError ''SyntaxError'' ''Unexpected token''))"

definition ok_backend :: backend where
  "ok_backend request = Inr (text_reply ''ok'')"

definition failing_backend :: backend where
  "failing_backend request = Inl (JsError ''APIConnectionError'' ''Connection error.'')"

definition empty_request :: generate_content_parameters where
  "empty_request = \<lparr>model = ''grok-3'', contents = Some (Many []), config = None\<rparr>"

definition file_of_length :: "nat \<Rightarrow> string \<Rightarrow> read_result" where
  "file_of_length n filePath = StringContent (replicate n CHR ''a'')"

definition never_aborted :: "nat \<Rightarrow> bool" where
  "never_aborted i = False"

definition foo_block :: string where
  "foo_block = ''[function_call]'' @ foo_json @ ''[/function_call]''"

section \<open>Facts about the string functions and the scans\<close>

lemma includes_str_iff: "includes_str s t \<longleftrightarrow> (\<exists>k\<le>length s. prefix t (drop k s))"
proof (induction s)
  case Nil
  then show ?case by simp
next
  case (Cons c cs)
  show ?case
  proof
    assume "includes_str (c # cs) t"
    then consider "prefix t (c # cs)" | "includes_str cs t" by auto
    then show "\<exists>k\<le>length (c # cs). prefix t (drop k (c # cs))"
    proof cases
      case 1
      then have "prefix t (drop 0 (c # cs))" by simp
      then show ?thesis by blast
    next
      case 2
      with Cons obtain k where "k \<le> length cs" "prefix t (drop k cs)" by blast
      then have "Suc k \<le> length (c # cs) \<and> prefix t (drop (Suc k) (c # cs))" by simp
      then show ?thesis by blast
    qed
  next
    assume "\<exists>k\<le>length (c # cs). prefix t (drop k (c # cs))"
    then obtain k where k: "k \<le> length (c # cs)" "prefix t (drop k (c # cs))" by blast
    show "includes_str (c # cs) t"
    proof (cases k)
      case 0
      with k show ?thesis by simp
    next
      case (Suc j)
      with k have "j \<le> length cs \<and> prefix t (drop j cs)" by simp
      with Cons show ?thesis by auto
    qed
  qed
qed

lemma includes_str_append: "includes_str (a @ t @ b) t"
proof -
  have "prefix t (drop (length a) (a @ t @ b))" by simp
  moreover have "length a \<le> length (a @ t @ b)" by simp
  ultimately show ?thesis unfolding includes_str_iff by blast
qed

lemma includes_str_appendI1: "includes_str a t \<Longrightarrow> includes_str (a @ b) t"
proof -
  assume "includes_str a t"
  then obtain k where k: "k \<le> length a" "prefix t (drop k a)" unfolding includes_str_iff by blast
  then have "prefix t (drop k a @ b)" by (metis prefix_prefix)
  with k have "k \<le> length (a @ b) \<and> prefix t (drop k (a @ b))" by simp
  then show ?thesis unfolding includes_str_iff by blast
qed

lemma includes_str_appendI2: "includes_str b t \<Longrightarrow> includes_str (a @ b) t"
  by (induction a) auto

lemma lit_Some: "lit p s = Some r \<longleftrightarrow> s = p @ r"
  by (auto simp: lit_def prefix_def)

lemma regex_scan_skip:
  "(\<And>k. k < length a \<Longrightarrow> m (drop k (a @ b)) = None) \<Longrightarrow>
     regex_scan m (a @ b) = map Lit a @ regex_scan m b"
proof (induction a)
  case Nil
  then show ?case by simp
next
  case (Cons c cs)
  have "m ((c # cs) @ b) = None" using Cons.prems [of 0] by simp
  moreover have "regex_scan m (cs @ b) = map Lit cs @ regex_scan m b"
  proof (rule Cons.IH)
    fix k assume "k < length cs"
    then show "m (drop k (cs @ b)) = None" using Cons.prems [of "Suc k"] by simp
  qed
  ultimately show ?case by (simp add: regex_scan.simps [of m "c # cs @ b"])
qed

lemma regex_scan_none:
  assumes "\<And>k. k \<le> length s \<Longrightarrow> m (drop k s) = None"
  shows "regex_scan m s = map Lit s"
proof -
  have "m [] = None" using assms [of "length s"] by simp
  then have e: "regex_scan m [] = []" by (simp add: regex_scan.simps [of m "[]"])
  have "regex_scan m (s @ []) = map Lit s @ regex_scan m []"
    by (rule regex_scan_skip) (use assms in simp)
  with e show ?thesis by simp
qed


lemma map_filter_Lits:
  "List.map_filter (\<lambda>t. case t of Lit c \<Rightarrow> Some c | Match g \<Rightarrow> None) (map Lit a @ ts) =
     a @ List.map_filter (\<lambda>t. case t of Lit c \<Rightarrow> Some c | Match g \<Rightarrow> None) ts"
  by (induction a) (simp_all add: map_filter_simps)

lemma map_filter_Matches:
  "List.map_filter (\<lambda>t. case t of Match g \<Rightarrow> Some g | Lit c \<Rightarrow> None) (map Lit a @ ts) =
     List.map_filter (\<lambda>t. case t of Match g \<Rightarrow> Some g | Lit c \<Rightarrow> None) ts"
  by (induction a) (simp_all add: map_filter_simps)

lemma remove_all_skip:
  "(\<And>k. k < length a \<Longrightarrow> m (drop k (a @ b)) = None) \<Longrightarrow> remove_all m (a @ b) = a @ remove_all m b"
  by (simp add: remove_all_def regex_scan_skip map_filter_Lits)

lemma match_all_skip:
  "(\<And>k. k < length a \<Longrightarrow> m (drop k (a @ b)) = None) \<Longrightarrow> match_all m (a @ b) = match_all m b"
  by (simp add: match_all_def regex_scan_skip map_filter_Matches)

lemma remove_all_none:
  "(\<And>k. k \<le> length s \<Longrightarrow> m (drop k s) = None) \<Longrightarrow> remove_all m s = s"
  using map_filter_Lits [of s "[]"] by (simp add: remove_all_def regex_scan_none map_filter_simps)

lemma match_all_none:
  "(\<And>k. k \<le> length s \<Longrightarrow> m (drop k s) = None) \<Longrightarrow> match_all m s = []"
  using map_filter_Matches [of s "[]"] by (simp add: match_all_def regex_scan_none map_filter_simps)

lemma block_at_includes: "block_at t = Some r \<Longrightarrow> prefix ''[function_call]'' t"
  by (auto simp: block_at_def lit_def split: bind_splits if_splits)

lemma tool_call_at_includes: "tool_call_at t = Some r \<Longrightarrow> prefix ''[tool_call:'' t"
  by (auto simp: tool_call_at_def lit_def split: bind_splits if_splits)

lemma simple_call_at_includes: "simple_call_at t = Some r \<Longrightarrow> prefix ''Calling function '' t"
  by (auto simp: simple_call_at_def lit_def split: bind_splits if_splits)

lemma no_opener_no_match:
  assumes "\<not> includes_str s p" and "\<And>t r. m t = Some r \<Longrightarrow> prefix p t"
  shows "match_all m s = []" and "remove_all m s = s"
proof -
  have n: "m (drop k s) = None" if "k \<le> length s" for k
  proof (cases "m (drop k s)")
    case None then show ?thesis .
  next
    case (Some r)
    then have "prefix p (drop k s)" by (rule assms(2))
    with that assms(1) show ?thesis unfolding includes_str_iff by blast
  qed
  show "match_all m s = []" by (rule match_all_none) (rule n)
  show "remove_all m s = s" by (rule remove_all_none) (rule n)
qed

section \<open>Closed forms of the extraction loops\<close>

lemma block_loop_eq:
  "block_loop parse pfx bodies st =
     st\<lparr>ex_parts := ex_parts st @ map FunctionCallPart (List.map_filter (block_call parse pfx) bodies),
        ex_calls := ex_calls st @ List.map_filter (block_call parse pfx) bodies\<rparr>"
  by (induction bodies arbitrary: st) (simp_all add: map_filter_simps push_call_def split: option.split)

lemma tool_call_loop_eq:
  "tool_call_loop pfx ms st =
     st\<lparr>ex_parts := ex_parts st @ map FunctionCallPart (map (tool_call_of pfx) ms),
        ex_calls := ex_calls st @ map (tool_call_of pfx) ms\<rparr>"
  by (induction ms arbitrary: st) (simp_all add: push_call_def)

lemma simple_call_loop_eq:
  "simple_call_loop ms st =
     st\<lparr>ex_parts := ex_parts st @ map FunctionCallPart (map simple_call_of ms),
        ex_calls := ex_calls st @ map simple_call_of ms\<rparr>"
  by (induction ms arbitrary: st) (simp_all add: push_call_def)


lemma native_loop_eq:
  "native_loop parse tcs st = Inr st' \<Longrightarrow>
     ex_text st' = ex_text st \<and>
     (\<exists>native. ex_parts st' = ex_parts st @ map FunctionCallPart native \<and>
               ex_calls st' = ex_calls st @ native \<and>
               (\<forall>fc\<in>set native. \<exists>s. fc_id fc = Given s))"
proof (induction tcs arbitrary: st)
  case Nil
  then show ?case by simp
next
  case (Cons tc tcs)
  show ?case
  proof (cases "tc_type tc = ''function''")
    case False
    with Cons show ?thesis by simp
  next
    case True
    let ?arg = "if tc_arguments tc \<noteq> [] then tc_arguments tc else ''{}''"
    from Cons.prems True obtain a where a: "parse ?arg = Inr a"
      by (cases "parse ?arg") auto
    let ?fc = "\<lparr>fc_id = Given (tc_id tc), fc_name = Some (JString (tc_name tc)), fc_args = a\<rparr>"
    from Cons.prems True a have "native_loop parse tcs (push_call ?fc st) = Inr st'"
      by (auto split: if_splits)
    from Cons.IH [OF this] obtain native where
      t: "ex_text st' = ex_text (push_call ?fc st)" and
      p: "ex_parts st' = ex_parts (push_call ?fc st) @ map FunctionCallPart native" and
      c: "ex_calls st' = ex_calls (push_call ?fc st) @ native" and
      g: "\<forall>fc\<in>set native. \<exists>s. fc_id fc = Given s"
      by blast
    have "ex_parts st' = ex_parts st @ map FunctionCallPart (?fc # native)"
      using p by (simp add: push_call_def)
    moreover have "ex_calls st' = ex_calls st @ (?fc # native)"
      using c by (simp add: push_call_def)
    moreover have "\<forall>fc\<in>set (?fc # native). \<exists>s. fc_id fc = Given s"
      using g by simp
    moreover have "ex_text st' = ex_text st"
      using t by (simp add: push_call_def)
    ultimately show ?thesis by blast
  qed
qed

lemma text_of_parts_append: "text_of_parts (xs @ ys) = text_of_parts xs @ text_of_parts ys"
  by (induction xs rule: text_of_parts.induct) simp_all

lemma calls_of_parts_append: "calls_of_parts (xs @ ys) = calls_of_parts xs @ calls_of_parts ys"
  by (induction xs rule: calls_of_parts.induct) simp_all

lemma text_of_parts_calls [simp]: "text_of_parts (map FunctionCallPart fcs) = []"
  by (induction fcs) simp_all

lemma calls_of_parts_calls [simp]: "calls_of_parts (map FunctionCallPart fcs) = fcs"
  by (induction fcs) simp_all

section \<open>Closed form of the three textual passes\<close>

lemma block_pass_eq:
  "block_pass parse c st =
     st\<lparr>ex_parts := ex_parts st @ map FunctionCallPart (List.map_filter (block_call parse ''grok_'') (match_all block_at c)),
        ex_calls := ex_calls st @ List.map_filter (block_call parse ''grok_'') (match_all block_at c),
        ex_text := (if includes_str c ''[function_call]'' then trim (remove_all block_at c) else ex_text st)\<rparr>"
proof (cases "includes_str c ''[function_call]''")
  case True
  then show ?thesis by (simp add: block_pass_def block_loop_eq)
next
  case False
  then have "match_all block_at c = []"
    by (rule no_opener_no_match) (rule block_at_includes)
  with False show ?thesis by (simp add: block_pass_def map_filter_simps)
qed

lemma tool_call_pass_eq:
  "tool_call_pass c st =
     st\<lparr>ex_parts := ex_parts st @ map FunctionCallPart (map (tool_call_of ''grok_mini_'') (match_all tool_call_at c)),
        ex_calls := ex_calls st @ map (tool_call_of ''grok_mini_'') (match_all tool_call_at c),
        ex_text := (if includes_str c ''[tool_call:'' then trim (remove_all tool_call_text_at c) else ex_text st)\<rparr>"
proof (cases "includes_str c ''[tool_call:''")
  case True
  then show ?thesis by (simp add: tool_call_pass_def tool_call_loop_eq)
next
  case False
  then have "match_all tool_call_at c = []"
    by (rule no_opener_no_match) (rule tool_call_at_includes)
  with False show ?thesis by (simp add: tool_call_pass_def)
qed

lemma simple_call_pass_eq:
  "simple_call_pass c st =
     st\<lparr>ex_parts := ex_parts st @ map FunctionCallPart (map simple_call_of (match_all simple_call_at c)),
        ex_calls := ex_calls st @ map simple_call_of (match_all simple_call_at c),
        ex_text := (if includes_str c ''Calling function '' then trim (remove_all simple_call_text_at c) else ex_text st)\<rparr>"
proof (cases "includes_str c ''Calling function ''")
  case True
  then show ?thesis by (simp add: simple_call_pass_def simple_call_loop_eq)
next
  case False
  then have "match_all simple_call_at c = []"
    by (rule no_opener_no_match) (rule simple_call_at_includes)
  with False show ?thesis by (simp add: simple_call_pass_def)
qed

text \<open>The calls the three textual passes extract from a text, in the order they are pushed.\<close>

lemma passes_eq:
  "simple_call_pass c (tool_call_pass c (block_pass parse c \<lparr>ex_parts = [], ex_calls = [], ex_text = c\<rparr>)) =
     \<lparr>ex_parts = map FunctionCallPart
         (List.map_filter (block_call parse ''grok_'') (match_all block_at c)
          @ map (tool_call_of ''grok_mini_'') (match_all tool_call_at c)
          @ map simple_call_of (match_all simple_call_at c)),
      ex_calls = List.map_filter (block_call parse ''grok_'') (match_all block_at c)
          @ map (tool_call_of ''grok_mini_'') (match_all tool_call_at c)
          @ map simple_call_of (match_all simple_call_at c),
      ex_text = (if includes_str c ''Calling function '' then trim (remove_all simple_call_text_at c)
                 else if includes_str c ''[tool_call:'' then trim (remove_all tool_call_text_at c)
                 else if includes_str c ''[function_call]'' then trim (remove_all block_at c)
                 else c)\<rparr>"
  by (simp add: block_pass_eq tool_call_pass_eq simple_call_pass_eq)

lemma convert_parts:
  assumes "choices response = choice # others"
      and "convertToGeminiResponse parse response = Inr r"
      and "c = content_or_empty (content (message choice))"
  shows "\<exists>native.
           parts r = map FunctionCallPart
               (List.map_filter (block_call parse ''grok_'') (match_all block_at c)
                @ map (tool_call_of ''grok_mini_'') (match_all tool_call_at c)
                @ map simple_call_of (match_all simple_call_at c))
             @ (if response_text r = [] then [] else [TextPart (response_text r)])
             @ map FunctionCallPart native
         \<and> (\<forall>fc\<in>set native. \<exists>s. fc_id fc = Given s)"
    and "response_text r =
           (if includes_str c ''Calling function '' then trim (remove_all simple_call_text_at c)
            else if includes_str c ''[tool_call:'' then trim (remove_all tool_call_text_at c)
            else if includes_str c ''[function_call]'' then trim (remove_all block_at c)
            else c)"
proof -
  let ?p = "simple_call_pass c (tool_call_pass c (block_pass parse c \<lparr>ex_parts = [], ex_calls = [], ex_text = c\<rparr>))"
  let ?tcs = "case tool_calls (message choice) of None \<Rightarrow> [] | Some tcs \<Rightarrow> tcs"
  from assms obtain st' where n: "native_loop parse ?tcs (push_text ?p) = Inr st'"
    and p: "parts r = ex_parts st'" and t: "response_text r = ex_text st'"
    by (cases "native_loop parse ?tcs (push_text ?p)") (auto simp: convertToGeminiResponse_def Let_def)
  from native_loop_eq [OF n] obtain native where
    nt: "ex_text st' = ex_text (push_text ?p)" and
    np: "ex_parts st' = ex_parts (push_text ?p) @ map FunctionCallPart native" and
    ng: "\<forall>fc\<in>set native. \<exists>s. fc_id fc = Given s" by blast
  have pt: "ex_text (push_text ?p) = ex_text ?p" by (simp add: push_text_def)
  have pp: "ex_parts (push_text ?p) =
      ex_parts ?p @ (if ex_text ?p = [] then [] else [TextPart (ex_text ?p)])"
    by (simp add: push_text_def)
  show "response_text r =
           (if includes_str c ''Calling function '' then trim (remove_all simple_call_text_at c)
            else if includes_str c ''[tool_call:'' then trim (remove_all tool_call_text_at c)
            else if includes_str c ''[function_call]'' then trim (remove_all block_at c)
            else c)"
    unfolding t nt pt by (simp add: passes_eq)
  have "parts r = map FunctionCallPart
               (List.map_filter (block_call parse ''grok_'') (match_all block_at c)
                @ map (tool_call_of ''grok_mini_'') (match_all tool_call_at c)
                @ map simple_call_of (match_all simple_call_at c))
             @ (if response_text r = [] then [] else [TextPart (response_text r)])
             @ map FunctionCallPart native"
    unfolding p np pp t nt pt by (simp add: passes_eq)
  with ng show "\<exists>native.
           parts r = map FunctionCallPart
               (List.map_filter (block_call parse ''grok_'') (match_all block_at c)
                @ map (tool_call_of ''grok_mini_'') (match_all tool_call_at c)
                @ map simple_call_of (match_all simple_call_at c))
             @ (if response_text r = [] then [] else [TextPart (response_text r)])
             @ map FunctionCallPart native
         \<and> (\<forall>fc\<in>set native. \<exists>s. fc_id fc = Given s)" by blast
qed

section \<open>Text in front of the first match of a deleting pattern\<close>

lemma no_match_inside:
  assumes "a \<noteq> []" and "last a = e" and "\<not> is_space e" and "e \<notin> set p"
      and "\<not> includes_str a p" and "k < length a"
  shows "\<not> prefix p (dropWhile is_space (drop k (a @ b)))"
proof
  let ?x = "drop k a"
  let ?y = "dropWhile is_space ?x"
  assume pre: "prefix p (dropWhile is_space (drop k (a @ b)))"
  have x: "?x \<noteq> []" using assms(6) by simp
  have lx: "last ?x = e" using assms(2,6) by simp
  with x have ex: "e \<in> set ?x" using last_in_set by blast
  have y: "?y \<noteq> []" using ex assms(3) by (auto simp: dropWhile_eq_Nil_conv)
  have split: "?x = takeWhile is_space ?x @ ?y" by simp
  have ly: "last ?y = e" using lx y split by (metis last_appendR)
  have "dropWhile is_space (drop k (a @ b)) = ?y @ b"
    using assms(6) ex assms(3) by (simp add: dropWhile_append1)
  with pre have "prefix p (?y @ b)" by simp
  then consider "prefix p ?y" | us where "p = ?y @ us" by (auto simp: prefix_append)
  then show False
  proof cases
    case 1
    have "a = (take k a @ takeWhile is_space ?x) @ ?y" by simp
    then have "drop (length (take k a @ takeWhile is_space ?x)) a = ?y"
      by (metis append_eq_conv_conj)
    moreover have "length (take k a @ takeWhile is_space ?x) \<le> length a"
      by (metis \<open>a = (take k a @ takeWhile is_space ?x) @ ?y\<close> length_append le_add1)
    ultimately have "includes_str a p" using 1 unfolding includes_str_iff by metis
    with assms(5) show False by simp
  next
    case 2
    have "e \<in> set ?y" using ly y last_in_set by metis
    then have "e \<in> set p" by (subst 2) simp
    with assms(4) show False by simp
  qed
qed

lemma tool_call_text_at_None:
  "\<not> prefix ''[tool_call:'' (dropWhile is_space s) \<Longrightarrow> tool_call_text_at s = None"
  by (simp add: tool_call_text_at_def lit_def)

lemma simple_call_text_at_None:
  "\<not> prefix ''Calling function '' (dropWhile is_space s) \<Longrightarrow> simple_call_text_at s = None"
  by (simp add: simple_call_text_at_def lit_def)

lemma bracket_not_space: "\<not> is_space CHR '']''"
  by (simp add: is_space_def)

lemma remove_tool_text_keeps:
  assumes "a \<noteq> []" and "last a = CHR '']''" and "\<not> includes_str a ''[tool_call:''"
  shows "remove_all tool_call_text_at (a @ b) = a @ remove_all tool_call_text_at b"
proof (rule remove_all_skip)
  fix k assume "k < length a"
  with assms have "\<not> prefix ''[tool_call:'' (dropWhile is_space (drop k (a @ b)))"
    by (intro no_match_inside [where e = "CHR '']''"]) (simp_all add: bracket_not_space)
  then show "tool_call_text_at (drop k (a @ b)) = None" by (rule tool_call_text_at_None)
qed

lemma remove_simple_text_keeps:
  assumes "a \<noteq> []" and "last a = CHR '']''" and "\<not> includes_str a ''Calling function ''"
  shows "remove_all simple_call_text_at (a @ b) = a @ remove_all simple_call_text_at b"
proof (rule remove_all_skip)
  fix k assume "k < length a"
  with assms have "\<not> prefix ''Calling function '' (dropWhile is_space (drop k (a @ b)))"
    by (intro no_match_inside [where e = "CHR '']''"]) (simp_all add: bracket_not_space)
  then show "simple_call_text_at (drop k (a @ b)) = None" by (rule simple_call_text_at_None)
qed

lemma trim_append_keep:
  assumes "a \<noteq> []" and "\<not> is_space (last a)"
  shows "trim (a @ z) = dropWhile is_space a @ rev (dropWhile is_space (rev z))"
proof -
  let ?y = "dropWhile is_space a"
  have la: "last a \<in> set a" using assms(1) by simp
  then have y: "?y \<noteq> []" using assms(2) by (auto simp: dropWhile_eq_Nil_conv)
  have "a = takeWhile is_space a @ ?y" by simp
  then have ly: "last ?y = last a" using y by (metis last_appendR)
  have d1: "dropWhile is_space (a @ z) = ?y @ z"
    using la assms(2) by (simp add: dropWhile_append1)
  have h: "hd (rev ?y) = last a" using y ly by (simp add: hd_rev)
  have ry: "rev ?y \<noteq> []" using y by simp
  have d3: "dropWhile is_space (rev ?y) = rev ?y"
    using ry h assms(2) by (cases "rev ?y") auto
  have d2: "dropWhile is_space (rev z @ rev ?y) = dropWhile is_space (rev z) @ rev ?y"
    by (simp add: dropWhile_append d3)
  show ?thesis by (simp add: trim_def d1 d2)
qed

section \<open>Text without markers\<close>

lemma plain_passes:
  assumes "\<not> includes_str c ''[function_call]''"
      and "\<not> includes_str c ''[tool_call:''"
      and "\<not> includes_str c ''Calling function ''"
  shows "simple_call_pass c (tool_call_pass c (block_pass parse c st)) = st"
  using assms by (simp add: simple_call_pass_def tool_call_pass_def block_pass_def)

lemma plain_reply:
  assumes "\<not> includes_str c ''[function_call]''"
      and "\<not> includes_str c ''[tool_call:''"
      and "\<not> includes_str c ''Calling function ''"
  shows "convertToGeminiResponse parse (text_reply c) =
           Inr \<lparr>parts = (if c = [] then [] else [TextPart c]), finishReason = STOP,
                usageMetadata = None, response_text = c, functionCalls = None\<rparr>"
proof -
  let ?st = "\<lparr>ex_parts = [], ex_calls = [], ex_text = c\<rparr>"
  have p: "simple_call_pass c (tool_call_pass c (block_pass parse c ?st)) = ?st"
    by (rule plain_passes [OF assms])
  have e: "convertToGeminiResponse parse (text_reply c) =
      Inr \<lparr>parts = ex_parts (push_text (simple_call_pass c (tool_call_pass c (block_pass parse c ?st)))),
           finishReason = STOP, usageMetadata = None,
           response_text = ex_text (push_text (simple_call_pass c (tool_call_pass c (block_pass parse c ?st)))),
           functionCalls =
             (if ex_calls (push_text (simple_call_pass c (tool_call_pass c (block_pass parse c ?st)))) \<noteq> []
              then Some (ex_calls (push_text (simple_call_pass c (tool_call_pass c (block_pass parse c ?st)))))
              else None)\<rparr>"
    by (simp add: convertToGeminiResponse_def text_reply_def content_or_empty_def Let_def
        convert_finish_def convert_usage_def)
  show ?thesis unfolding e p by (simp add: push_text_def)
qed

section \<open>The streamed path\<close>

lemma not_includes_prefix: "\<not> includes_str (a @ b) t \<Longrightarrow> \<not> includes_str a t"
  using includes_str_appendI1 by blast

lemma stream_round_plain:
  assumes "\<not> includes_str (acc @ d) ''[function_call]''"
      and "\<not> includes_str (acc @ d) ''[tool_call:''"
  shows "stream_round parse acc
           \<lparr>delta = \<lparr>delta_content = Some d, reasoning_content = None, delta_tool_calls = None\<rparr>,
            chunk_finish_reason = None\<rparr>
         = (acc @ d, Inr (if d \<noteq> [] then Some (plain_delta d) else None))"
  using assms
  by (simp add: stream_round_def Let_def stream_block_pass_def stream_tool_call_pass_def
      content_or_empty_def push_thought_def push_text_def plain_delta_def convert_finish_def)

lemma stream_loop_plain:
  assumes "\<not> includes_str (acc @ concat ds) ''[function_call]''"
      and "\<not> includes_str (acc @ concat ds) ''[tool_call:''"
  shows "stream_loop parse acc (map text_chunk ds) = (map plain_delta (filter (\<lambda>d. d \<noteq> []) ds), None)"
  using assms
proof (induction ds arbitrary: acc)
  case Nil
  then show ?case by simp
next
  case (Cons d ds)
  have a: "\<not> includes_str ((acc @ d) @ concat ds) ''[function_call]''"
          "\<not> includes_str ((acc @ d) @ concat ds) ''[tool_call:''"
    using Cons.prems by simp_all
  have b: "\<not> includes_str (acc @ d) ''[function_call]''" "\<not> includes_str (acc @ d) ''[tool_call:''"
    using a(1) not_includes_prefix apply blast
    using a(2) not_includes_prefix by blast
  have ih: "stream_loop parse (acc @ d) (map text_chunk ds)
      = (map plain_delta (filter (\<lambda>d. d \<noteq> []) ds), None)"
    using a by (rule Cons.IH)
  have cc: "chunk_choices (text_chunk d) =
      [\<lparr>delta = \<lparr>delta_content = Some d, reasoning_content = None, delta_tool_calls = None\<rparr>,
        chunk_finish_reason = None\<rparr>]"
    by (simp add: text_chunk_def)
  show ?case
    by (simp add: cc stream_round_plain [OF b] ih)
qed

lemma concat_nonempty: "concat (filter (\<lambda>d. d \<noteq> []) ds) = concat ds"
  by (induction ds) simp_all

lemma plain_stream_text:
  "concat (map (\<lambda>r. text_of_parts (parts r)) (map plain_delta ds)) = concat ds"
  by (induction ds) (simp_all add: plain_delta_def)

lemma plain_stream_calls:
  "concat (map (\<lambda>r. calls_of_parts (parts r)) (map plain_delta ds)) = []"
  by (induction ds) (simp_all add: plain_delta_def)

lemma until_lit_Some: "until_lit p s = Some (body, rest) \<Longrightarrow> s = body @ p @ rest"
proof (induction s arbitrary: body)
  case Nil
  then show ?case by (simp split: if_splits)
next
  case (Cons c cs)
  show ?case
  proof (cases "prefix p (c # cs)")
    case True
    with Cons.prems have "body = []" "rest = drop (length p) (c # cs)" by simp_all
    with True show ?thesis by (metis append_Nil prefix_def append_eq_conv_conj)
  next
    case False
    with Cons.prems obtain b where "until_lit p cs = Some (b, rest)" "body = c # b"
      by (auto split: option.splits)
    with Cons.IH show ?thesis by simp
  qed
qed

lemma block_at_Some:
  "block_at s = Some (body, rest) \<Longrightarrow> s = ''[function_call]'' @ body @ ''[/function_call]'' @ rest"
proof -
  assume a: "block_at s = Some (body, rest)"
  then obtain s1 where l: "lit ''[function_call]'' s = Some s1"
    and u: "until_lit ''[/function_call]'' s1 = Some (body, rest)"
    by (auto simp: block_at_def split: bind_splits)
  from l have "s = ''[function_call]'' @ s1" by (simp only: lit_Some)
  moreover from u have "s1 = body @ ''[/function_call]'' @ rest" by (rule until_lit_Some)
  ultimately show ?thesis by simp
qed

lemma block_token_text_simps [simp]:
  "block_token_text (Lit c) = [c]"
  "block_token_text (Match body) = ''[function_call]'' @ body @ ''[/function_call]''"
  by (simp_all add: block_token_text_def)

lemma block_scan_text: "concat (map block_token_text (regex_scan block_at s)) = s"
proof (induction s rule: length_induct)
  case (1 s)
  show ?case
  proof (cases "block_at s")
    case None
    show ?thesis
    proof (cases s)
      case Nil
      with None show ?thesis by (simp add: regex_scan.simps [of block_at "[]"])
    next
      case (Cons c cs)
      with 1 have "concat (map block_token_text (regex_scan block_at cs)) = cs" by simp
      with None Cons show ?thesis
        by (simp add: regex_scan.simps [of block_at "c # cs"])
    qed
  next
    case (Some x)
    obtain body rest where x: "x = (body, rest)" by (cases x)
    from Some x have "block_at s = Some (body, rest)" by simp
    then have s: "s = ''[function_call]'' @ body @ ''[/function_call]'' @ rest"
      by (rule block_at_Some)
    then have len: "length rest < length s" by simp
    with 1 have "concat (map block_token_text (regex_scan block_at rest)) = rest" by simp
    with Some x len have "concat (map block_token_text (regex_scan block_at s))
        = ''[function_call]'' @ body @ ''[/function_call]'' @ rest"
      by (simp add: regex_scan.simps [of block_at s])
    with s show ?thesis by simp
  qed
qed

lemma block_match_markers:
  assumes "k \<le> length buf" and "block_at (drop k buf) = Some x"
  shows "includes_str buf ''[function_call]'' \<and> includes_str buf ''[/function_call]''"
proof -
  obtain body rest where x: "x = (body, rest)" by (cases x)
  with assms(2) have "block_at (drop k buf) = Some (body, rest)" by simp
  then have d: "drop k buf = ''[function_call]'' @ body @ ''[/function_call]'' @ rest"
    by (rule block_at_Some)
  have "buf = take k buf @ drop k buf" by simp
  then have o: "buf = take k buf @ ''[function_call]'' @ (body @ ''[/function_call]'' @ rest)"
    by (simp only: d)
  then have c: "buf = (take k buf @ ''[function_call]'' @ body) @ ''[/function_call]'' @ rest"
    by simp
  have "includes_str buf ''[function_call]''"
    by (metis o includes_str_append)
  moreover have "includes_str buf ''[/function_call]''"
    by (metis c includes_str_append)
  ultimately show ?thesis by simp
qed

lemma block_matches_need_markers:
  assumes "match_all block_at buf \<noteq> []"
  shows "includes_str buf ''[function_call]'' \<and> includes_str buf ''[/function_call]''"
proof (rule ccontr)
  assume n: "\<not> (includes_str buf ''[function_call]'' \<and> includes_str buf ''[/function_call]'')"
  have "match_all block_at buf = []"
  proof (rule match_all_none)
    fix k assume "k \<le> length buf"
    with n block_match_markers show "block_at (drop k buf) = None"
      by (cases "block_at (drop k buf)") blast+
  qed
  with assms show False by simp
qed

lemma stream_block_pass_eq:
  "stream_block_pass parse d (buf, st) =
     ((if includes_str buf ''[function_call]'' \<and> includes_str buf ''[/function_call]''
       then trim (remove_all block_at buf) else buf),
      st\<lparr>ex_parts := ex_parts st @ map FunctionCallPart
                         (List.map_filter (block_call parse ''grok_stream_'') (match_all block_at buf)),
         ex_calls := ex_calls st @ List.map_filter (block_call parse ''grok_stream_'') (match_all block_at buf),
         ex_text := (if includes_str buf ''[function_call]'' \<and> includes_str buf ''[/function_call]''
                     then trim (remove_all block_at d) else ex_text st)\<rparr>)"
proof (cases "includes_str buf ''[function_call]'' \<and> includes_str buf ''[/function_call]''")
  case True
  then show ?thesis by (simp add: stream_block_pass_def block_loop_eq)
next
  case False
  with block_matches_need_markers have "match_all block_at buf = []" by blast
  with False show ?thesis by (auto simp: stream_block_pass_def map_filter_simps)
qed

lemma stream_tool_call_pass_eq:
  "stream_tool_call_pass d (buf, st) =
     ((if includes_str buf ''[tool_call:'' then trim (remove_all tool_call_text_at buf) else buf),
      st\<lparr>ex_parts := ex_parts st @ map FunctionCallPart
                         (map (tool_call_of ''grok_mini_stream_'') (match_all tool_call_at buf)),
         ex_calls := ex_calls st @ map (tool_call_of ''grok_mini_stream_'') (match_all tool_call_at buf),
         ex_text := (if includes_str buf ''[tool_call:''
                     then trim (remove_all tool_call_text_at d) else ex_text st)\<rparr>)"
proof (cases "includes_str buf ''[tool_call:''")
  case True
  then show ?thesis by (simp add: stream_tool_call_pass_def tool_call_loop_eq)
next
  case False
  then have "match_all tool_call_at buf = []"
    by (rule no_opener_no_match) (rule tool_call_at_includes)
  with False show ?thesis by (simp add: stream_tool_call_pass_def)
qed

lemma stream_native_loop_eq:
  "stream_native_loop parse tcs st = Inr st' \<Longrightarrow>
     ex_text st' = ex_text st \<and>
     (\<exists>native. ex_parts st' = ex_parts st @ map FunctionCallPart native \<and>
               ex_calls st' = ex_calls st @ native \<and>
               (\<forall>fc\<in>set native. fc_id fc \<noteq> Generated ''grok_stream_''))"
proof (induction tcs arbitrary: st)
  case Nil
  then show ?case by simp
next
  case (Cons tc tcs)
  show ?case
  proof (cases "dtc_function tc \<noteq> None \<and> dtc_type tc = Some ''function''")
    case False
    with Cons.prems have "stream_native_loop parse tcs st = Inr st'"
      by (auto split: option.splits if_splits)
    then show ?thesis by (rule Cons.IH)
  next
    case True
    then obtain f where f: "dtc_function tc = Some f" and ty: "dtc_type tc = Some ''function''"
      by auto
    let ?arg = "if content_or_empty (df_arguments f) \<noteq> []
                then parse (content_or_empty (df_arguments f)) else Inr (JObject [])"
    from Cons.prems f ty obtain a where a: "?arg = Inr a"
      by (cases ?arg) (auto split: if_splits)
    let ?fc = "\<lparr>fc_id = (if content_or_empty (dtc_id tc) \<noteq> []
                            then Given (content_or_empty (dtc_id tc)) else Generated ''tool_''),
                 fc_name = Some (JString (content_or_empty (df_name f))), fc_args = a\<rparr>"
    from Cons.prems f ty a have "stream_native_loop parse tcs (push_call ?fc st) = Inr st'"
      by (auto split: if_splits)
    from Cons.IH [OF this] obtain native where
      t: "ex_text st' = ex_text (push_call ?fc st)" and
      p: "ex_parts st' = ex_parts (push_call ?fc st) @ map FunctionCallPart native" and
      c: "ex_calls st' = ex_calls (push_call ?fc st) @ native" and
      g: "\<forall>fc\<in>set native. fc_id fc \<noteq> Generated ''grok_stream_''"
      by blast
    have "ex_parts st' = ex_parts st @ map FunctionCallPart (?fc # native)"
      using p by (simp add: push_call_def)
    moreover have "ex_calls st' = ex_calls st @ (?fc # native)"
      using c by (simp add: push_call_def)
    moreover have "\<forall>fc\<in>set (?fc # native). fc_id fc \<noteq> Generated ''grok_stream_''"
      using g by simp
    moreover have "ex_text st' = ex_text st"
      using t by (simp add: push_call_def)
    ultimately show ?thesis by blast
  qed
qed

lemma block_call_id: "block_call parse pfx body = Some fc \<Longrightarrow> fc_id fc = Generated pfx"
  by (auto simp: block_call_def split: sum.splits)

lemma block_calls_filter:
  "filter (\<lambda>fc. fc_id fc = Generated pfx) (List.map_filter (block_call parse pfx) bodies)
     = List.map_filter (block_call parse pfx) bodies"
proof (induction bodies)
  case Nil
  then show ?case by (simp add: map_filter_simps)
next
  case (Cons b bodies)
  then show ?case
    by (cases "block_call parse pfx b") (simp_all add: map_filter_simps block_call_id)
qed

lemma calls_of_push_thought [simp]:
  "calls_of_parts (ex_parts (push_thought r \<lparr>ex_parts = [], ex_calls = [], ex_text = d\<rparr>)) = []"
  by (simp add: push_thought_def)

lemma calls_of_push_text [simp]:
  "calls_of_parts (ex_parts (push_text st)) = calls_of_parts (ex_parts st)"
  by (simp add: push_text_def calls_of_parts_append)

lemma stream_round_buffer:
  "fst (stream_round parse acc choice)
     = buffer_after (acc @ content_or_empty (delta_content (delta choice)))"
  by (simp add: stream_round_def Let_def stream_block_pass_eq stream_tool_call_pass_eq
      buffer_after_def split: prod.splits)

lemma stream_round_block_calls:
  assumes "stream_round parse acc choice = (acc', Inr (Some r))"
  shows "filter (\<lambda>fc. fc_id fc = Generated ''grok_stream_'') (calls_of_parts (parts r))
         = List.map_filter (block_call parse ''grok_stream_'')
             (match_all block_at (acc @ content_or_empty (delta_content (delta choice))))"
proof -
  define d where "d = content_or_empty (delta_content (delta choice))"
  define buf where "buf = acc @ d"
  define st0 where "st0 = push_thought (reasoning_content (delta choice))
                  \<lparr>ex_parts = [], ex_calls = [], ex_text = d\<rparr>"
  define b1 where "b1 = (if includes_str buf ''[function_call]'' \<and> includes_str buf ''[/function_call]''
       then trim (remove_all block_at buf) else buf)"
  define bc where "bc = List.map_filter (block_call parse ''grok_stream_'') (match_all block_at buf)"
  define ic where "ic = map (tool_call_of ''grok_mini_stream_'') (match_all tool_call_at b1)"
  define tcs where "tcs = (case delta_tool_calls (delta choice) of None \<Rightarrow> [] | Some tcs \<Rightarrow> tcs)"
  obtain b2 st2 where p: "stream_tool_call_pass d (stream_block_pass parse d (buf, st0)) = (b2, st2)"
    by (cases "stream_tool_call_pass d (stream_block_pass parse d (buf, st0))")
  have parts2: "ex_parts st2 = ex_parts st0 @ map FunctionCallPart bc @ map FunctionCallPart ic"
    using p by (auto simp: stream_block_pass_eq stream_tool_call_pass_eq bc_def ic_def b1_def)
  from assms obtain st' where n: "stream_native_loop parse tcs (push_text st2) = Inr st'"
    and r: "parts r = ex_parts st'"
    unfolding stream_round_def Let_def d_def [symmetric] buf_def [symmetric] st0_def [symmetric]
      tcs_def [symmetric] p
    by (cases "stream_native_loop parse tcs (push_text st2)") (auto split: if_splits)
  from stream_native_loop_eq [OF n] obtain native where
    np: "ex_parts st' = ex_parts (push_text st2) @ map FunctionCallPart native" and
    ng: "\<forall>fc\<in>set native. fc_id fc \<noteq> Generated ''grok_stream_''" by blast
  have calls: "calls_of_parts (parts r) = bc @ ic @ native"
    unfolding r np by (simp add: calls_of_parts_append parts2 st0_def)
  have f1: "filter (\<lambda>fc. fc_id fc = Generated ''grok_stream_'') bc = bc"
    unfolding bc_def by (rule block_calls_filter)
  have f2: "filter (\<lambda>fc. fc_id fc = Generated ''grok_stream_'') ic = []"
    unfolding ic_def by (auto simp: filter_empty_conv tool_call_of_def)
  have f3: "filter (\<lambda>fc. fc_id fc = Generated ''grok_stream_'') native = []"
    using ng by (simp add: filter_empty_conv)
  show ?thesis
    unfolding calls d_def [symmetric] buf_def [symmetric] by (simp add: f1 f2 f3) (simp add: bc_def)
qed

section \<open>What a deletion does at its first complete marker\<close>

lemma straddle:
  assumes "y \<noteq> []" and "prefix (c0 # p') (y @ m @ (c0 # p') @ t)" and "c0 \<notin> set p'"
  shows "prefix (c0 # p') (y @ m)"
proof -
  from assms(2) have "prefix (c0 # p') ((y @ m) @ ((c0 # p') @ t))" by simp
  then consider "prefix (c0 # p') (y @ m)"
    | us where "c0 # p' = (y @ m) @ us" "prefix us ((c0 # p') @ t)"
    unfolding prefix_append by blast
  then show ?thesis
  proof cases
    case 1
    then show ?thesis .
  next
    case 2
    show ?thesis
    proof (cases us)
      case Nil
      with 2(1) show ?thesis by simp
    next
      case (Cons u us')
      with 2(2) have u: "u = c0" by simp
      from assms(1) obtain y0 y' where y: "y = y0 # y'" by (cases y) auto
      from 2(1) Cons u y have "p' = y' @ m @ c0 # us'" by simp
      then have "c0 \<in> set p'" by simp
      with assms(3) show ?thesis by simp
    qed
  qed
qed

lemma suffix_includes:
  assumes "s = u @ v" and "prefix p v"
  shows "includes_str s p"
proof -
  have "drop (length u) s = v" using assms(1) by simp
  moreover have "length u \<le> length s" using assms(1) by simp
  ultimately show ?thesis using assms(2) unfolding includes_str_iff by metis
qed

lemma opener_not_inside:
  assumes "\<not> includes_str a (c0 # p')" and "c0 \<notin> set p'" and "k < length a"
  shows "\<not> prefix (c0 # p') (drop k (a @ (c0 # p') @ t))"
proof
  assume h: "prefix (c0 # p') (drop k (a @ (c0 # p') @ t))"
  have "drop k (a @ (c0 # p') @ t) = drop k a @ [] @ (c0 # p') @ t" using assms(3) by simp
  with h have h': "prefix (c0 # p') (drop k a @ [] @ (c0 # p') @ t)" by (simp only: simp_thms)
  have ne: "drop k a \<noteq> []" using assms(3) by simp
  have "prefix (c0 # p') (drop k a @ [])" by (rule straddle [OF ne h' assms(2)])
  then have "prefix (c0 # p') (drop k a)" by (simp only: append_Nil2 simp_thms)
  moreover have "a = take k a @ drop k a" by simp
  ultimately have "includes_str a (c0 # p')" by (rule suffix_includes [rotated])
  with assms(1) show False by simp
qed

lemma opener_not_before:
  assumes "a = [] \<or> \<not> is_space (last a)" and "\<forall>c\<in>set ws. is_space c"
      and "\<not> includes_str (a @ ws) (c0 # p')" and "c0 \<notin> set p'" and "k < length a"
  shows "\<not> prefix (c0 # p') (dropWhile is_space (drop k (a @ ws @ (c0 # p') @ t)))"
proof
  let ?x = "drop k a"
  let ?y = "dropWhile is_space ?x"
  assume pre: "prefix (c0 # p') (dropWhile is_space (drop k (a @ ws @ (c0 # p') @ t)))"
  have a: "a \<noteq> []" using assms(5) by auto
  with assms(1) have la: "\<not> is_space (last a)" by simp
  have x: "?x \<noteq> []" using assms(5) by simp
  have lx: "last ?x = last a" using assms(5) by simp
  with x have ex: "last a \<in> set ?x" using last_in_set by metis
  have y: "?y \<noteq> []" using ex la by (auto simp: dropWhile_eq_Nil_conv)
  have "dropWhile is_space (drop k (a @ ws @ (c0 # p') @ t)) = ?y @ ws @ (c0 # p') @ t"
    using assms(5) ex la by (simp add: dropWhile_append1)
  with pre have pre': "prefix (c0 # p') (?y @ ws @ (c0 # p') @ t)" by (simp only: simp_thms)
  have p: "prefix (c0 # p') (?y @ ws)" by (rule straddle [OF y pre' assms(4)])
  have "a @ ws = (take k a @ takeWhile is_space ?x) @ (?y @ ws)" by simp
  from this p have "includes_str (a @ ws) (c0 # p')" by (rule suffix_includes)
  with assms(3) show False by simp
qed

lemma until_lit_first:
  assumes "\<not> includes_str body (c0 # p')" and "c0 \<notin> set p'"
  shows "until_lit (c0 # p') (body @ (c0 # p') @ b) = Some (body, b)"
  using assms(1)
proof (induction body)
  case Nil
  have "prefix (c0 # p') (c0 # (p' @ b))" by simp
  then have "until_lit (c0 # p') (c0 # (p' @ b)) = Some ([], drop (length (c0 # p')) (c0 # (p' @ b)))"
    by (simp only: until_lit.simps if_True simp_thms)
  then show ?case by simp
next
  case (Cons c body)
  have n: "\<not> prefix (c0 # p') ((c # body) @ (c0 # p') @ b)"
  proof
    assume "prefix (c0 # p') ((c # body) @ (c0 # p') @ b)"
    then have h: "prefix (c0 # p') ((c # body) @ [] @ (c0 # p') @ b)" by (simp only: append_Nil simp_thms)
    have ne: "c # body \<noteq> []" by simp
    have "prefix (c0 # p') ((c # body) @ [])" by (rule straddle [OF ne h assms(2)])
    then have "prefix (c0 # p') (c # body)" by (simp only: append_Nil2 simp_thms)
    then have "includes_str (c # body) (c0 # p')" by (simp only: includes_str.simps simp_thms)
    with Cons.prems show False by blast
  qed
  have "\<not> includes_str body (c0 # p')" using Cons.prems by (simp only: includes_str.simps de_Morgan_disj simp_thms)
  then have ih: "until_lit (c0 # p') (body @ (c0 # p') @ b) = Some (body, b)" by (rule Cons.IH)
  have n': "\<not> prefix (c0 # p') (c # (body @ (c0 # p') @ b))"
    using n by (simp only: append_Cons simp_thms)
  have "until_lit (c0 # p') (c # (body @ (c0 # p') @ b))
      = map_option (\<lambda>(body, rest). (c # body, rest)) (until_lit (c0 # p') (body @ (c0 # p') @ b))"
    by (simp only: until_lit.simps n' if_False simp_thms)
  with ih have "until_lit (c0 # p') (c # (body @ (c0 # p') @ b)) = Some (c # body, b)" by simp
  then show ?case by (simp only: append_Cons simp_thms)
qed

lemma scan_at_match:
  assumes "\<And>k. k < length a \<Longrightarrow> m (drop k (a @ s)) = None"
      and "m s = Some (g, rest)" and "length rest < length s"
  shows "remove_all m (a @ s) = a @ remove_all m rest"
    and "match_all m (a @ s) = g # match_all m rest"
proof -
  have "regex_scan m s = Match g # regex_scan m rest"
    using assms(2,3) by (simp add: regex_scan.simps [of m s])
  then have r: "regex_scan m (a @ s) = map Lit a @ Match g # regex_scan m rest"
    using regex_scan_skip [of a m s, OF assms(1)] by simp
  show "remove_all m (a @ s) = a @ remove_all m rest"
    by (simp add: remove_all_def r map_filter_Lits map_filter_simps)
  show "match_all m (a @ s) = g # match_all m rest"
    by (simp add: match_all_def r map_filter_Matches map_filter_simps)
qed

lemma block_at_None: "\<not> prefix ''[function_call]'' s \<Longrightarrow> block_at s = None"
  by (simp add: block_at_def lit_def)

lemma block_at_match:
  assumes "\<not> includes_str body ''[/function_call]''"
  shows "block_at (''[function_call]'' @ body @ ''[/function_call]'' @ b) = Some (body, b)"
proof -
  have l: "lit ''[function_call]'' (''[function_call]'' @ body @ ''[/function_call]'' @ b)
      = Some (body @ ''[/function_call]'' @ b)"
    by (simp only: lit_Some)
  have u: "until_lit ''[/function_call]'' (body @ ''[/function_call]'' @ b) = Some (body, b)"
    by (rule until_lit_first [OF assms]) simp
  show ?thesis
    by (simp only: block_at_def l u bind.bind_lunit)
qed

lemma remove_block:
  assumes "\<not> includes_str a ''[function_call]''" and "\<not> includes_str body ''[/function_call]''"
  shows "remove_all block_at (a @ ''[function_call]'' @ body @ ''[/function_call]'' @ b)
           = a @ remove_all block_at b"
    and "match_all block_at (a @ ''[function_call]'' @ body @ ''[/function_call]'' @ b)
           = body # match_all block_at b"
proof -
  let ?s = "''[function_call]'' @ body @ ''[/function_call]'' @ b"
  have n: "block_at (drop k (a @ ?s)) = None" if "k < length a" for k
  proof (rule block_at_None)
    show "\<not> prefix ''[function_call]'' (drop k (a @ ?s))"
      by (rule opener_not_inside [OF assms(1) _ that]) simp
  qed
  have m: "block_at ?s = Some (body, b)" by (rule block_at_match [OF assms(2)])
  have len: "length b < length ?s" by simp
  show "remove_all block_at (a @ ?s) = a @ remove_all block_at b"
    by (rule scan_at_match(1) [OF n m len])
  show "match_all block_at (a @ ?s) = body # match_all block_at b"
    by (rule scan_at_match(2) [OF n m len])
qed

lemma dropWhile_spaces:
  assumes "\<forall>c\<in>set ws. is_space c" and "b = [] \<or> \<not> is_space (hd b)"
  shows "dropWhile is_space (ws @ b) = b"
proof -
  have "dropWhile is_space b = b" using assms(2) by (cases b) auto
  with assms(1) show ?thesis by (simp add: dropWhile_append2)
qed

lemma tool_call_text_at_match:
  assumes "\<forall>c\<in>set ws1. is_space c" and "\<forall>c\<in>set ws2. is_space c"
      and "inner \<noteq> []" and "CHR '']'' \<notin> set inner" and "b = [] \<or> \<not> is_space (hd b)"
  shows "tool_call_text_at (ws1 @ ''[tool_call:'' @ inner @ '']'' @ ws2 @ b) = Some ((), b)"
proof -
  have d1: "dropWhile is_space (ws1 @ ''[tool_call:'' @ inner @ '']'' @ ws2 @ b)
      = ''[tool_call:'' @ inner @ '']'' @ ws2 @ b"
    by (rule dropWhile_spaces [OF assms(1)]) (simp add: is_space_def)
  have l1: "lit ''[tool_call:'' (''[tool_call:'' @ inner @ '']'' @ ws2 @ b) = Some (inner @ '']'' @ ws2 @ b)"
    by (simp only: lit_Some)
  have tw: "takeWhile (\<lambda>c. c \<noteq> CHR '']'') (inner @ '']'' @ ws2 @ b) = inner"
    "dropWhile (\<lambda>c. c \<noteq> CHR '']'') (inner @ '']'' @ ws2 @ b) = '']'' @ ws2 @ b"
  proof -
    have ni: "\<forall>x\<in>set inner. x \<noteq> CHR '']''" using assms(4) by auto
    show "takeWhile (\<lambda>c. c \<noteq> CHR '']'') (inner @ '']'' @ ws2 @ b) = inner"
      using ni by (simp add: takeWhile_append2)
    show "dropWhile (\<lambda>c. c \<noteq> CHR '']'') (inner @ '']'' @ ws2 @ b) = '']'' @ ws2 @ b"
      using ni by (simp add: dropWhile_append2)
  qed
  have m: "many1 (\<lambda>c. c \<noteq> CHR '']'') (inner @ '']'' @ ws2 @ b) = Some (inner, '']'' @ ws2 @ b)"
    using assms(3) by (simp only: many1_def tw) simp
  have l2: "lit '']'' ('']'' @ ws2 @ b) = Some (ws2 @ b)"
    by (simp only: lit_Some)
  have d2: "dropWhile is_space (ws2 @ b) = b"
    by (rule dropWhile_spaces [OF assms(2,5)])
  show ?thesis
    by (simp only: tool_call_text_at_def d1 l1 m l2 d2 bind.bind_lunit prod.case)
qed

lemma simple_call_text_at_match:
  assumes "\<forall>c\<in>set ws1. is_space c" and "\<forall>c\<in>set ws2. is_space c"
      and "name \<noteq> []" and "\<forall>c\<in>set name. is_word c"
      and "b = [] \<or> (\<not> is_space (hd b) \<and> (ws2 \<noteq> [] \<or> \<not> is_word (hd b)))"
  shows "simple_call_text_at (ws1 @ ''Calling function '' @ name @ ws2 @ b) = Some ((), b)"
proof -
  have d1: "dropWhile is_space (ws1 @ ''Calling function '' @ name @ ws2 @ b)
      = ''Calling function '' @ name @ ws2 @ b"
    by (rule dropWhile_spaces [OF assms(1)]) (simp add: is_space_def)
  have l1: "lit ''Calling function '' (''Calling function '' @ name @ ws2 @ b) = Some (name @ ws2 @ b)"
    by (simp only: lit_Some)
  have sw: "\<not> is_word c" if "is_space c" for c
    using that by (auto simp: is_space_def is_word_def is_digit_def)
  have stop: "ws2 @ b = [] \<or> \<not> is_word (hd (ws2 @ b))"
  proof (cases ws2)
    case Nil
    with assms(5) show ?thesis by auto
  next
    case (Cons w ws)
    with assms(2) have "is_space w" by simp
    with Cons show ?thesis by (simp add: sw)
  qed
  have dw: "dropWhile is_word (ws2 @ b) = ws2 @ b" "takeWhile is_word (ws2 @ b) = []"
    using stop by (cases "ws2 @ b"; simp)+
  have tw: "takeWhile is_word (name @ ws2 @ b) = name"
    "dropWhile is_word (name @ ws2 @ b) = ws2 @ b"
    using assms(4) dw by (simp_all add: takeWhile_append2 dropWhile_append2)
  have m: "many1 is_word (name @ ws2 @ b) = Some (name, ws2 @ b)"
    using assms(3) by (simp only: many1_def tw) simp
  have b': "b = [] \<or> \<not> is_space (hd b)" using assms(5) by blast
  have d2: "dropWhile is_space (ws2 @ b) = b"
    by (rule dropWhile_spaces [OF assms(2) b'])
  show ?thesis
    by (simp only: simple_call_text_at_def d1 l1 m d2 bind.bind_lunit prod.case)
qed

lemma remove_tool_text:
  assumes "a = [] \<or> \<not> is_space (last a)"
      and "\<forall>c\<in>set ws1. is_space c" and "\<forall>c\<in>set ws2. is_space c"
      and "\<not> includes_str (a @ ws1) ''[tool_call:''"
      and "inner \<noteq> []" and "CHR '']'' \<notin> set inner" and "b = [] \<or> \<not> is_space (hd b)"
  shows "remove_all tool_call_text_at (a @ ws1 @ ''[tool_call:'' @ inner @ '']'' @ ws2 @ b)
           = a @ remove_all tool_call_text_at b"
proof -
  let ?s = "ws1 @ ''[tool_call:'' @ inner @ '']'' @ ws2 @ b"
  have n: "tool_call_text_at (drop k (a @ ?s)) = None" if "k < length a" for k
  proof (rule tool_call_text_at_None)
    show "\<not> prefix ''[tool_call:'' (dropWhile is_space (drop k (a @ ?s)))"
      by (rule opener_not_before [OF assms(1,2,4) _ that]) simp
  qed
  have m: "tool_call_text_at ?s = Some ((), b)"
    by (rule tool_call_text_at_match [OF assms(2,3,5,6,7)])
  have len: "length b < length ?s" by simp
  show ?thesis by (rule scan_at_match(1) [OF n m len])
qed

lemma remove_simple_text:
  assumes "a = [] \<or> \<not> is_space (last a)"
      and "\<forall>c\<in>set ws1. is_space c" and "\<forall>c\<in>set ws2. is_space c"
      and "\<not> includes_str (a @ ws1) ''Calling function ''"
      and "name \<noteq> []" and "\<forall>c\<in>set name. is_word c"
      and "b = [] \<or> (\<not> is_space (hd b) \<and> (ws2 \<noteq> [] \<or> \<not> is_word (hd b)))"
  shows "remove_all simple_call_text_at (a @ ws1 @ ''Calling function '' @ name @ ws2 @ b)
           = a @ remove_all simple_call_text_at b"
proof -
  let ?s = "ws1 @ ''Calling function '' @ name @ ws2 @ b"
  have n: "simple_call_text_at (drop k (a @ ?s)) = None" if "k < length a" for k
  proof (rule simple_call_text_at_None)
    show "\<not> prefix ''Calling function '' (dropWhile is_space (drop k (a @ ?s)))"
      by (rule opener_not_before [OF assms(1,2,4) _ that]) simp
  qed
  have m: "simple_call_text_at ?s = Some ((), b)"
    by (rule simple_call_text_at_match [OF assms(2,3,5,6,7)])
  have len: "length b < length ?s" by simp
  show ?thesis by (rule scan_at_match(1) [OF n m len])
qed

section \<open>Token estimates\<close>

lemma ceil_quarter_div: "ceil_quarter n = (int n + 3) div 4"
proof -
  have "\<lceil>real n / 4\<rceil> = \<lceil>real_of_int (int n) / real_of_int 4\<rceil>" by simp
  also have "\<dots> = - ((- int n) div 4)" by (simp only: ceiling_divide_eq_div)
  also have "\<dots> = (int n + 3) div 4" by presburger
  finally show ?thesis by (simp add: ceil_quarter_def)
qed

lemma ceil_quarter_mono: "m \<le> n \<Longrightarrow> ceil_quarter m \<le> ceil_quarter n"
  unfolding ceil_quarter_div by (simp add: zdiv_mono1)

lemma countTokens_string: "countTokens (Some (One (StringItem s))) = ceil_quarter (length s)"
  by (cases "s = []") (simp_all add: countTokens_def contents_truthy_def content_array_def ceil_quarter_div)


text \<open>
  C9. \<open>countTokens\<close> does not fail for want of a counting endpoint: for a request whose content
  is one text string of length \<open>n\<close> it returns the ceiling of \<open>n / 4\<close>, which is the file tool's
  \<open>estimateTokens\<close> of that string. It returns 0 for absent and for empty content, 100 for a
  string of 400 characters, and a longer string never gets a smaller count.
\<close>

theorem countTokens_estimate:
  "countTokens (Some (One (StringItem s))) = \<lceil>real (length s) / 4\<rceil>
   \<and> countTokens (Some (One (StringItem s))) = estimateTokens s
   \<and> countTokens None = 0
   \<and> countTokens (Some (One (StringItem []))) = 0
   \<and> (length s = 400 \<longrightarrow> countTokens (Some (One (StringItem s))) = 100)
   \<and> (length s \<le> length t \<longrightarrow>
        countTokens (Some (One (StringItem s))) \<le> countTokens (Some (One (StringItem t))))"
proof -
  have a: "countTokens (Some (One (StringItem s))) = \<lceil>real (length s) / 4\<rceil>"
    by (simp add: countTokens_string ceil_quarter_def)
  have b: "countTokens (Some (One (StringItem s))) = estimateTokens s"
    by (simp add: countTokens_string estimateTokens_def)
  have c: "countTokens None = 0"
    by (simp add: countTokens_def contents_truthy_def)
  have d: "countTokens (Some (One (StringItem []))) = 0"
    by (simp add: countTokens_def contents_truthy_def)
  have e: "length s = 400 \<longrightarrow> countTokens (Some (One (StringItem s))) = 100"
    by (simp add: countTokens_string ceil_quarter_div)
  have f: "length s \<le> length t \<longrightarrow>
        countTokens (Some (One (StringItem s))) \<le> countTokens (Some (One (StringItem t)))"
    by (simp add: countTokens_string ceil_quarter_mono)
  from a b c d e f show ?thesis by blast
qed

theorem countTokens_estimate_witness:
  "length (replicate 400 CHR ''a'') = 400
   \<and> countTokens (Some (One (StringItem (replicate 400 CHR ''a'')))) = 100
   \<and> length (replicate 400 CHR ''a'') \<le> length (replicate 401 CHR ''b'')
   \<and> countTokens (Some (One (StringItem (replicate 400 CHR ''a''))))
        \<le> countTokens (Some (One (StringItem (replicate 401 CHR ''b''))))"
  using countTokens_estimate [of "replicate 400 CHR ''a''" "replicate 401 CHR ''b''"] by simp


section \<open>Embeddings\<close>

text \<open>
  C8, as amended. \<open>embedContent\<close> fails for every request, and never returns a value; the
  error is a plain \<open>Error\<close> with the message \<open>Embeddings not supported by Grok\<close>, not an error
  of a class of its own.
\<close>

theorem embedContent_always_throws:
  "embedContent request = Inl (JsError ''Error'' ''Embeddings not supported by Grok'')"
  by (simp add: embedContent_def)

text \<open>The claim as stated asks for a distinct \<open>UnsupportedOperation\<close> error. The error thrown
  has the generic class.\<close>

theorem embedContent_generic_error:
  "embedContent ''text to embed'' = Inl (JsError ''Error'' ''Embeddings not supported by Grok'')
   \<and> error_class (JsError ''Error'' ''Embeddings not supported by Grok'') \<noteq> ''UnsupportedOperation''"
  by (simp add: embedContent_def)

section \<open>Parsing the model's selection\<close>

lemma digits_at_no_digit: "\<forall>c\<in>set s. \<not> is_digit c \<Longrightarrow> digits_at (drop k s) = None"
proof -
  assume a: "\<forall>c\<in>set s. \<not> is_digit c"
  have "takeWhile is_digit (drop k s) = []"
  proof (cases "drop k s")
    case Nil then show ?thesis by simp
  next
    case (Cons c cs)
    then have "c \<in> set (drop k s)" by simp
    then have "c \<in> set s" by (rule in_set_dropD)
    with a Cons show ?thesis by simp
  qed
  then show ?thesis by (simp add: digits_at_def many1_def)
qed

lemma parse_no_digits: "\<forall>c\<in>set s. \<not> is_digit c \<Longrightarrow> parseSelectionResponse s = []"
proof -
  assume a: "\<forall>c\<in>set s. \<not> is_digit c"
  have "match_all digits_at s = []"
    by (rule match_all_none) (rule digits_at_no_digit [OF a])
  then show ?thesis by (simp add: parseSelectionResponse_def)
qed

lemma pick_example: "parseSelectionResponse (''I'' @ [CHR 0x27] @ ''d pick 2, 5 and 9'') = [2, 5, 9]"
  by code_simp

lemma digits_at_run:
  assumes "ds \<noteq> []" and "\<forall>c\<in>set ds. is_digit c" and "rest = [] \<or> \<not> is_digit (hd rest)"
  shows "digits_at (ds @ rest) = Some (ds, rest)"
proof -
  have r: "takeWhile is_digit rest = []" "dropWhile is_digit rest = rest"
    using assms(3) by (cases rest; auto)+
  have "takeWhile is_digit (ds @ rest) = ds" "dropWhile is_digit (ds @ rest) = rest"
    using assms(2) r by (simp_all add: takeWhile_append2 dropWhile_append2)
  with assms(1) show ?thesis by (simp add: digits_at_def many1_def)
qed

lemma match_all_digits_token:
  assumes "\<forall>c\<in>set nd. \<not> is_digit c"
      and "ds \<noteq> []" and "\<forall>c\<in>set ds. is_digit c" and "rest = [] \<or> \<not> is_digit (hd rest)"
  shows "match_all digits_at (nd @ ds @ rest) = ds # match_all digits_at rest"
proof -
  have skip: "match_all digits_at (nd @ ds @ rest) = match_all digits_at (ds @ rest)"
  proof (rule match_all_skip)
    fix k assume k: "k < length nd"
    then have "drop k (nd @ ds @ rest) = nd ! k # drop (Suc k) nd @ ds @ rest"
      by (simp add: Cons_nth_drop_Suc)
    moreover have "\<not> is_digit (nd ! k)" using assms(1) k by simp
    ultimately show "digits_at (drop k (nd @ ds @ rest)) = None"
      by (simp add: digits_at_def many1_def)
  qed
  have "regex_scan digits_at (ds @ rest) = Match ds # regex_scan digits_at rest"
    using assms(2) by (simp add: regex_scan.simps [of digits_at "ds @ rest"] digits_at_run [OF assms(2-4)])
  then have "match_all digits_at (ds @ rest) = ds # match_all digits_at rest"
    by (simp add: match_all_def map_filter_simps)
  with skip show ?thesis by simp
qed

lemma parse_token:
  assumes "\<forall>c\<in>set nd. \<not> is_digit c"
      and "ds \<noteq> []" and "\<forall>c\<in>set ds. is_digit c" and "rest = [] \<or> \<not> is_digit (hd rest)"
  shows "parseSelectionResponse (nd @ ds @ rest) =
           (if 0 < parseInt10 ds \<and> parseInt10 ds \<le> 100 then [parseInt10 ds] else [])
             @ parseSelectionResponse rest"
  by (simp add: parseSelectionResponse_def match_all_digits_token [OF assms])

lemma map_filter_file_at:
  "\<forall>num\<in>set nums. 1 \<le> num \<Longrightarrow>
   filter (\<lambda>f. f \<noteq> []) (List.map_filter (file_at sortedFiles) nums) =
     map (\<lambda>num. sortedFiles ! (num - 1))
       (filter (\<lambda>num. num \<le> length sortedFiles \<and> sortedFiles ! (num - 1) \<noteq> []) nums)"
proof (induction nums)
  case Nil
  show ?case by (simp add: map_filter_simps)
next
  case (Cons n nums)
  then have n: "1 \<le> n" and ih: "filter (\<lambda>f. f \<noteq> []) (List.map_filter (file_at sortedFiles) nums) =
     map (\<lambda>num. sortedFiles ! (num - 1))
       (filter (\<lambda>num. num \<le> length sortedFiles \<and> sortedFiles ! (num - 1) \<noteq> []) nums)"
    by simp_all
  from n have f: "file_at sortedFiles n =
      (if n \<le> length sortedFiles then Some (sortedFiles ! (n - 1)) else None)"
    unfolding file_at_def by (cases n) auto
  have "filter (\<lambda>f. f \<noteq> []) (List.map_filter (file_at sortedFiles) (n # nums)) =
      (if n \<le> length sortedFiles \<and> sortedFiles ! (n - 1) \<noteq> [] then [sortedFiles ! (n - 1)] else [])
        @ filter (\<lambda>f. f \<noteq> []) (List.map_filter (file_at sortedFiles) nums)"
    unfolding map_filter_simps f by simp
  then show ?case unfolding ih by simp
qed

lemma select_files_closed:
  "select_files sortedFiles responseText =
     (let picked = take 20 (map (\<lambda>num. sortedFiles ! (num - 1))
                     (filter (\<lambda>num. num \<le> length sortedFiles \<and> sortedFiles ! (num - 1) \<noteq> [])
                        (parseSelectionResponse (content_or_empty responseText))))
      in if picked = [] then take 10 sortedFiles else picked)"
proof -
  have "\<forall>num\<in>set (parseSelectionResponse (content_or_empty responseText)). 1 \<le> num"
    by (auto simp: parseSelectionResponse_def)
  from map_filter_file_at [OF this] show ?thesis
    by (simp add: select_files_def Let_def)
qed

lemma select_files_subset: "set (select_files sortedFiles responseText) \<subseteq> set sortedFiles"
proof -
  have "set (take 20 (map (\<lambda>num. sortedFiles ! (num - 1))
                     (filter (\<lambda>num. num \<le> length sortedFiles \<and> sortedFiles ! (num - 1) \<noteq> [])
                        nums))) \<subseteq> set sortedFiles" if "\<forall>num\<in>set nums. 1 \<le> num" for nums
  proof
    fix x assume "x \<in> set (take 20 (map (\<lambda>num. sortedFiles ! (num - 1))
                     (filter (\<lambda>num. num \<le> length sortedFiles \<and> sortedFiles ! (num - 1) \<noteq> [])
                        nums)))"
    then have "x \<in> set (map (\<lambda>num. sortedFiles ! (num - 1))
                     (filter (\<lambda>num. num \<le> length sortedFiles \<and> sortedFiles ! (num - 1) \<noteq> [])
                        nums))" by (rule in_set_takeD)
    then obtain n where "n \<in> set nums" "n \<le> length sortedFiles" "x = sortedFiles ! (n - 1)" by auto
    with that have "n - 1 < length sortedFiles" by (metis One_nat_def Suc_le_lessD Suc_pred less_Suc_eq_le not_less)
    with \<open>x = _\<close> show "x \<in> set sortedFiles" by simp
  qed
  moreover have "\<forall>num\<in>set (parseSelectionResponse (content_or_empty responseText)). 1 \<le> num"
    by (auto simp: parseSelectionResponse_def)
  moreover have "set (take 10 sortedFiles) \<subseteq> set sortedFiles" by (rule set_take_subset)
  ultimately show ?thesis
    unfolding select_files_closed Let_def by (simp split: if_splits)
qed

lemma select_example: "parseSelectionResponse ''3, 9 and 1'' = [3, 9, 1]"
  by code_simp

text \<open>
  C6, as amended. Selection-response parsing extracts the integer tokens of the answer that lie
  between 1 and 100, in the order they appear and with repetitions kept: a run of digits that
  follows text without digits and is not continued by a digit contributes its value if that
  is in range, and parsing goes on behind it. The pipeline maps each number \<open>n\<close> to the
  \<open>n\<close>-th candidate in sort order, drops the numbers beyond the end of the candidate list
  (and candidates whose path is the empty string), keeps the order and the repetitions, and
  caps the selection at its first 20 files; when nothing is left it takes the first 10
  candidates in sort order instead. So every selected file is a candidate. On
  \<open>I'd pick 2, 5 and 9\<close> parsing yields \<open>[2, 5, 9]\<close>; on an answer without digits it yields
  the empty list, and the pipeline then takes the first 10 candidates in sort order.
\<close>

theorem parseSelectionResponse_range_cap:
  "(\<forall>num\<in>set (parseSelectionResponse response). 1 \<le> num \<and> num \<le> 100)
   \<and> ((\<forall>c\<in>set nd. \<not> is_digit c) \<and> ds \<noteq> [] \<and> (\<forall>c\<in>set ds. is_digit c)
        \<and> (rest = [] \<or> \<not> is_digit (hd rest)) \<longrightarrow>
        parseSelectionResponse (nd @ ds @ rest) =
          (if 0 < parseInt10 ds \<and> parseInt10 ds \<le> 100 then [parseInt10 ds] else [])
            @ parseSelectionResponse rest)
   \<and> length (select_files sortedFiles responseText) \<le> 20
   \<and> parseSelectionResponse (''I'' @ [CHR 0x27] @ ''d pick 2, 5 and 9'') = [2, 5, 9]
   \<and> ((\<forall>c\<in>set response. \<not> is_digit c) \<longrightarrow>
        parseSelectionResponse response = []
        \<and> select_files sortedFiles (Some response) = take 10 sortedFiles)
   \<and> select_files sortedFiles responseText =
       (let picked = take 20 (map (\<lambda>num. sortedFiles ! (num - 1))
                       (filter (\<lambda>num. num \<le> length sortedFiles \<and> sortedFiles ! (num - 1) \<noteq> [])
                          (parseSelectionResponse (content_or_empty responseText))))
        in if picked = [] then take 10 sortedFiles else picked)
   \<and> set (select_files sortedFiles responseText) \<subseteq> set sortedFiles"
proof -
  have a: "\<forall>num\<in>set (parseSelectionResponse response). 1 \<le> num \<and> num \<le> 100"
    by (auto simp: parseSelectionResponse_def)
  have t: "parseSelectionResponse (nd @ ds @ rest) =
          (if 0 < parseInt10 ds \<and> parseInt10 ds \<le> 100 then [parseInt10 ds] else [])
            @ parseSelectionResponse rest"
    if "(\<forall>c\<in>set nd. \<not> is_digit c) \<and> ds \<noteq> [] \<and> (\<forall>c\<in>set ds. is_digit c)
        \<and> (rest = [] \<or> \<not> is_digit (hd rest))"
    using that by (intro parse_token) simp_all
  have b: "length (select_files sortedFiles responseText) \<le> 20"
    by (auto simp: select_files_def Let_def)
  have c: "(\<forall>c\<in>set response. \<not> is_digit c) \<longrightarrow>
        parseSelectionResponse response = []
        \<and> select_files sortedFiles (Some response) = take 10 sortedFiles"
    by (simp add: parse_no_digits select_files_def content_or_empty_def map_filter_simps)
  show ?thesis
    apply (intro conjI)
          apply (rule a)
         apply (rule impI, erule t)
        apply (rule b)
       apply (rule pick_example)
      apply (rule c)
     apply (rule select_files_closed)
    apply (rule select_files_subset)
    done
qed

theorem parseSelectionResponse_range_cap_witness:
  "parseSelectionResponse ''3 and 101'' = [3]
   \<and> hd (parseSelectionResponse ''3 and 101'') \<le> 100
   \<and> \<not> is_digit CHR ''n'' \<and> \<not> is_digit CHR ''o'' \<and> \<not> is_digit CHR ''e''
   \<and> is_digit CHR ''7'' \<and> \<not> is_digit (hd '', 7'') \<and> parseInt10 ''7'' = 7
   \<and> parseSelectionResponse (''no '' @ ''7'' @ '', 7'') = [7] @ parseSelectionResponse '', 7''
   \<and> parseSelectionResponse ''none'' = []
   \<and> select_files [''a.ts'', ''b.ts''] (Some ''none'') = [''a.ts'', ''b.ts'']
   \<and> parseSelectionResponse ''3, 9 and 1'' = [3, 9, 1]
   \<and> select_files [''a.ts'', ''b.ts'', ''c.ts''] (Some ''3, 9 and 1'') = [''c.ts'', ''a.ts'']"
proof -
  have n: "\<forall>c\<in>set ''none''. \<not> is_digit c" "\<forall>c\<in>set ''no ''. \<not> is_digit c"
    "\<forall>c\<in>set ''7''. is_digit c" "\<not> is_digit (hd '', 7'')"
    by (simp_all add: is_digit_def)
  have p: "parseSelectionResponse ''3 and 101'' = [3]" "parseInt10 ''7'' = 7" by code_simp+
  have q: "parseSelectionResponse ''3, 9 and 1'' = [3, 9, 1]" by (rule select_example)
  have first: "parseSelectionResponse ''3 and 101'' = [3]
   \<and> hd (parseSelectionResponse ''3 and 101'') \<le> 100
   \<and> \<not> is_digit CHR ''n'' \<and> \<not> is_digit CHR ''o'' \<and> \<not> is_digit CHR ''e''
   \<and> is_digit CHR ''7'' \<and> \<not> is_digit (hd '', 7'') \<and> parseInt10 ''7'' = 7
   \<and> parseSelectionResponse (''no '' @ ''7'' @ '', 7'') = [7] @ parseSelectionResponse '', 7''
   \<and> parseSelectionResponse ''none'' = []
   \<and> select_files [''a.ts'', ''b.ts''] (Some ''none'') = [''a.ts'', ''b.ts'']"
    using n p
      parseSelectionResponse_range_cap [where response = "''3 and 101''" and nd = "''no ''"
        and ds = "''7''" and rest = "'', 7''" and sortedFiles = "[''a.ts'', ''b.ts'']"
        and responseText = "Some ''none''", THEN conjunct1]
      parseSelectionResponse_range_cap [where response = "''3 and 101''" and nd = "''no ''"
        and ds = "''7''" and rest = "'', 7''" and sortedFiles = "[''a.ts'', ''b.ts'']"
        and responseText = "Some ''none''", THEN conjunct2, THEN conjunct1]
      parseSelectionResponse_range_cap [where response = "''none''" and nd = "''no ''"
        and ds = "''7''" and rest = "'', 7''" and sortedFiles = "[''a.ts'', ''b.ts'']"
        and responseText = "Some ''none''", THEN conjunct2, THEN conjunct2, THEN conjunct2,
        THEN conjunct2, THEN conjunct1]
    by (simp add: is_digit_def)
  have sel: "select_files [''a.ts'', ''b.ts'', ''c.ts''] (Some ''3, 9 and 1'') = [''c.ts'', ''a.ts'']"
    using parseSelectionResponse_range_cap [where sortedFiles = "[''a.ts'', ''b.ts'', ''c.ts'']"
        and responseText = "Some ''3, 9 and 1''", THEN conjunct2, THEN conjunct2, THEN conjunct2,
        THEN conjunct2, THEN conjunct2, THEN conjunct1]
    by (simp add: content_or_empty_def q)
  from first q sel show ?thesis by simp
qed

text \<open>The claim as stated has the parser de-duplicate. A number given twice is kept twice, and
  its file is selected twice.\<close>

theorem parseSelectionResponse_keeps_duplicates:
  "parseSelectionResponse ''2, 2, 5'' = [2, 2, 5]
   \<and> \<not> distinct (parseSelectionResponse ''2, 2, 5'')
   \<and> select_files [''a.ts'', ''b.ts'', ''c.ts''] (Some ''2, 2, 5'') = [''b.ts'', ''b.ts'']"
proof -
  have p: "parseSelectionResponse ''2, 2, 5'' = [2, 2, 5]" by code_simp
  have s: "select_files [''a.ts'', ''b.ts'', ''c.ts''] (Some ''2, 2, 5'') = [''b.ts'', ''b.ts'']"
    by (simp add: select_files_def p content_or_empty_def map_filter_simps file_at_def)
  from p s show ?thesis by simp
qed

section \<open>Validation of the request\<close>

text \<open>
  C4, as amended. \<open>generateContent\<close> validates nothing: whatever the request, it sends exactly
  one request to the backend. When the content list is empty that request carries no
  conversation message (only the system message, if there is a system instruction), and the
  outcome is the backend's failure if the call fails and the normalised reply otherwise.
\<close>

theorem generateContent_always_calls_backend:
  "length (fst (generateContent parse backend request)) = 1
   \<and> fst (generateContent parse backend request) = [convertToOpenAIRequest request]
   \<and> (content_array (contents request) = [] \<longrightarrow>
        cp_messages (convertToOpenAIRequest request) = system_messages (config request))
   \<and> (content_array (contents request) = [] \<longrightarrow> config request = None \<longrightarrow>
        cp_messages (convertToOpenAIRequest request) = [])
   \<and> (\<forall>e. backend (convertToOpenAIRequest request) = Inl e \<longrightarrow>
        snd (generateContent parse backend request) = Inl e)
   \<and> (\<forall>response. backend (convertToOpenAIRequest request) = Inr response \<longrightarrow>
        snd (generateContent parse backend request) = convertToGeminiResponse parse response)"
  by (simp add: generateContent_def Let_def convertToOpenAIRequest_def system_messages_def)

theorem generateContent_always_calls_backend_witness:
  "content_array (contents empty_request) = []
   \<and> config empty_request = None
   \<and> cp_messages (convertToOpenAIRequest empty_request) = []
   \<and> failing_backend (convertToOpenAIRequest empty_request)
       = Inl (JsError ''APIConnectionError'' ''Connection error.'')
   \<and> snd (generateContent parse_foo failing_backend empty_request)
       = Inl (JsError ''APIConnectionError'' ''Connection error.'')
   \<and> ok_backend (convertToOpenAIRequest empty_request) = Inr (text_reply ''ok'')
   \<and> snd (generateContent parse_foo ok_backend empty_request)
       = convertToGeminiResponse parse_foo (text_reply ''ok'')"
proof -
  have a: "content_array (contents empty_request) = []" "config empty_request = None"
    by (simp_all add: empty_request_def content_array_def)
  have f: "failing_backend (convertToOpenAIRequest empty_request)
       = Inl (JsError ''APIConnectionError'' ''Connection error.'')"
    by (simp add: failing_backend_def)
  have k: "ok_backend (convertToOpenAIRequest empty_request) = Inr (text_reply ''ok'')"
    by (simp add: ok_backend_def)
  from a f k generateContent_always_calls_backend [of parse_foo failing_backend empty_request]
       generateContent_always_calls_backend [of parse_foo ok_backend empty_request]
  show ?thesis by blast
qed

text \<open>The claim as stated has the call fail with a \<open>ValidationError\<close> before any network
  traffic. With an empty content list the request goes out with an empty message list and the
  reply comes back normalised.\<close>

theorem generateContent_no_validation:
  "generateContent parse_foo ok_backend empty_request
     = ([\<lparr>cp_model = ''grok-3'', cp_messages = [], cp_temperature = None, cp_max_tokens = None,
          cp_top_p = None, cp_tools = None, cp_tool_choice = None, cp_stream = False\<rparr>],
        Inr \<lparr>parts = [TextPart ''ok''], finishReason = STOP, usageMetadata = None,
             response_text = ''ok'', functionCalls = None\<rparr>)"
  by code_simp

section \<open>The block form on the specification's example\<close>

lemma foo_block_includes:
  "includes_str foo_block ''[function_call]''"
  "\<not> includes_str foo_block ''[tool_call:''"
  "\<not> includes_str foo_block ''Calling function ''"
  by code_simp+

lemma foo_block_matches: "match_all block_at foo_block = [foo_json]"
  by code_simp

lemma foo_block_removed: "trim (remove_all block_at foo_block) = []"
  by code_simp

lemma foo_json_trim: "trim foo_json = foo_json"
  by code_simp

text \<open>
  C5. For a reply whose text is exactly
  \<open>[function_call]{"action":"foo","action_input":{"x":1}}[/function_call]\<close>, and a \<open>JSON.parse\<close>
  that reads the object between the markers, the normalizer produces exactly one function-call
  part, with name \<open>foo\<close> and arguments \<open>{x: 1}\<close>; the visible text is empty, so no text part is
  produced and the marker block appears nowhere in the result.
\<close>

theorem block_form_example:
  assumes "parse foo_json =
             Inr (JObject [(''action'', JString ''foo''), (''action_input'', JObject [(''x'', JNumber 1)])])"
      and "choices response = choice # others"
      and "content (message choice) = Some (''[function_call]'' @ foo_json @ ''[/function_call]'')"
      and "tool_calls (message choice) = None"
  shows "convertToGeminiResponse parse response =
           Inr \<lparr>parts = [FunctionCallPart \<lparr>fc_id = Generated ''grok_'', fc_name = Some (JString ''foo''),
                                           fc_args = JObject [(''x'', JNumber 1)]\<rparr>],
                finishReason = convert_finish (finish_reason choice),
                usageMetadata = convert_usage (usage response),
                response_text = [],
                functionCalls = Some [\<lparr>fc_id = Generated ''grok_'', fc_name = Some (JString ''foo''),
                                       fc_args = JObject [(''x'', JNumber 1)]\<rparr>]\<rparr>"
proof -
  have c: "content_or_empty (content (message choice)) = foo_block"
    using assms(3) by (simp add: content_or_empty_def foo_block_def)
  have call: "block_call parse ''grok_'' foo_json =
      Some \<lparr>fc_id = Generated ''grok_'', fc_name = Some (JString ''foo''),
            fc_args = JObject [(''x'', JNumber 1)]\<rparr>"
    using assms(1) by (simp add: block_call_def foo_json_trim)
  show ?thesis
    using assms(2,4)
    by (simp add: convertToGeminiResponse_def c Let_def block_pass_def tool_call_pass_def
        simple_call_pass_def foo_block_includes foo_block_matches foo_block_removed call
        push_call_def push_text_def)
qed

theorem block_form_example_witness:
  "parse_foo foo_json =
     Inr (JObject [(''action'', JString ''foo''), (''action_input'', JObject [(''x'', JNumber 1)])])
   \<and> convertToGeminiResponse parse_foo (text_reply (''[function_call]'' @ foo_json @ ''[/function_call]'')) =
       Inr \<lparr>parts = [FunctionCallPart \<lparr>fc_id = Generated ''grok_'', fc_name = Some (JString ''foo''),
                                       fc_args = JObject [(''x'', JNumber 1)]\<rparr>],
            finishReason = STOP, usageMetadata = None, response_text = [],
            functionCalls = Some [\<lparr>fc_id = Generated ''grok_'', fc_name = Some (JString ''foo''),
                                   fc_args = JObject [(''x'', JNumber 1)]\<rparr>]\<rparr>"
  using block_form_example [of parse_foo
      "text_reply (''[function_call]'' @ foo_json @ ''[/function_call]'')"
      "\<lparr>message = \<lparr>content = Some (''[function_call]'' @ foo_json @ ''[/function_call]''),
                    tool_calls = None\<rparr>, finish_reason = Some ''stop''\<rparr>" "[]"]
  by (simp add: parse_foo_def text_reply_def convert_finish_def convert_usage_def)

section \<open>Plain text\<close>

text \<open>
  C7, as amended. For every backend reply whose text holds none of the three opener
  substrings \<open>[function_call]\<close>, \<open>[tool_call:\<close> and \<open>Calling function \<close>, extraction is the
  identity: the visible text is the input text, unchanged, the only text part is that text
  (none when it is empty), and the text yields no function call: every call of the response
  comes from the native \<open>tool_calls\<close> field and carries its given id. For every reply in which
  no marker of the three forms is complete, the text still yields no function call, whatever
  openers it holds.
\<close>

theorem plain_text_identity:
  assumes "choices response = choice # others"
      and "content (message choice) = Some c"
  shows "(\<not> includes_str c ''[function_call]'' \<and> \<not> includes_str c ''[tool_call:''
            \<and> \<not> includes_str c ''Calling function '' \<longrightarrow>
           (tool_calls (message choice) = None \<longrightarrow>
              convertToGeminiResponse parse response =
                Inr \<lparr>parts = (if c = [] then [] else [TextPart c]),
                     finishReason = convert_finish (finish_reason choice),
                     usageMetadata = convert_usage (usage response),
                     response_text = c, functionCalls = None\<rparr>)
           \<and> (\<forall>r. convertToGeminiResponse parse response = Inr r \<longrightarrow>
                 response_text r = c \<and> text_of_parts (parts r) = c
                 \<and> (\<forall>fc\<in>set (calls_of_parts (parts r)). \<exists>s. fc_id fc = Given s)))
         \<and> (match_all block_at c = [] \<and> match_all tool_call_at c = []
              \<and> match_all simple_call_at c = [] \<longrightarrow>
              (\<forall>r. convertToGeminiResponse parse response = Inr r \<longrightarrow>
                 (\<forall>fc\<in>set (calls_of_parts (parts r)). \<exists>s. fc_id fc = Given s)))"
proof -
  let ?st = "push_text \<lparr>ex_parts = [], ex_calls = [], ex_text = c\<rparr>"
  let ?tcs = "case tool_calls (message choice) of None \<Rightarrow> [] | Some tcs \<Rightarrow> tcs"
  have c: "content_or_empty (content (message choice)) = c"
    using assms(2) by (simp add: content_or_empty_def)
  have plain: "(tool_calls (message choice) = None \<longrightarrow>
              convertToGeminiResponse parse response =
                Inr \<lparr>parts = (if c = [] then [] else [TextPart c]),
                     finishReason = convert_finish (finish_reason choice),
                     usageMetadata = convert_usage (usage response),
                     response_text = c, functionCalls = None\<rparr>)
           \<and> (\<forall>r. convertToGeminiResponse parse response = Inr r \<longrightarrow>
                 response_text r = c \<and> text_of_parts (parts r) = c
                 \<and> (\<forall>fc\<in>set (calls_of_parts (parts r)). \<exists>s. fc_id fc = Given s))"
    if h: "\<not> includes_str c ''[function_call]''" "\<not> includes_str c ''[tool_call:''"
          "\<not> includes_str c ''Calling function ''"
  proof -
    have conv: "convertToGeminiResponse parse response =
        (case native_loop parse ?tcs ?st of
           Inl e \<Rightarrow> Inl e
         | Inr st' \<Rightarrow>
             Inr \<lparr>parts = ex_parts st', finishReason = convert_finish (finish_reason choice),
                  usageMetadata = convert_usage (usage response), response_text = ex_text st',
                  functionCalls = (if ex_calls st' \<noteq> [] then Some (ex_calls st') else None)\<rparr>)"
      using assms(1) by (simp add: convertToGeminiResponse_def c Let_def plain_passes [OF h])
    have st: "ex_parts ?st = (if c = [] then [] else [TextPart c])" "ex_text ?st = c" "ex_calls ?st = []"
      by (simp_all add: push_text_def)
    have first: "tool_calls (message choice) = None \<longrightarrow>
             convertToGeminiResponse parse response =
               Inr \<lparr>parts = (if c = [] then [] else [TextPart c]),
                    finishReason = convert_finish (finish_reason choice),
                    usageMetadata = convert_usage (usage response),
                    response_text = c, functionCalls = None\<rparr>"
      using st by (simp add: conv)
    have second: "response_text r = c \<and> text_of_parts (parts r) = c
                 \<and> (\<forall>fc\<in>set (calls_of_parts (parts r)). \<exists>s. fc_id fc = Given s)"
      if r: "convertToGeminiResponse parse response = Inr r" for r
    proof -
      from r obtain st' where n: "native_loop parse ?tcs ?st = Inr st'"
        and p: "parts r = ex_parts st'" and t: "response_text r = ex_text st'"
        unfolding conv by (cases "native_loop parse ?tcs ?st") auto
      from native_loop_eq [OF n] obtain native where
        "ex_text st' = ex_text ?st" "ex_parts st' = ex_parts ?st @ map FunctionCallPart native"
        "\<forall>fc\<in>set native. \<exists>s. fc_id fc = Given s" by blast
      with p t st show ?thesis
        by (simp add: text_of_parts_append calls_of_parts_append)
    qed
    from first second show ?thesis by blast
  qed
  have nocall: "\<forall>fc\<in>set (calls_of_parts (parts r)). \<exists>s. fc_id fc = Given s"
    if m: "match_all block_at c = []" "match_all tool_call_at c = []" "match_all simple_call_at c = []"
      and r: "convertToGeminiResponse parse response = Inr r" for r
  proof -
    from convert_parts(1) [OF assms(1) r c [symmetric]] obtain native where
      p: "parts r = map FunctionCallPart
               (List.map_filter (block_call parse ''grok_'') (match_all block_at c)
                @ map (tool_call_of ''grok_mini_'') (match_all tool_call_at c)
                @ map simple_call_of (match_all simple_call_at c))
             @ (if response_text r = [] then [] else [TextPart (response_text r)])
             @ map FunctionCallPart native"
      and g: "\<forall>fc\<in>set native. \<exists>s. fc_id fc = Given s" by blast
    have "calls_of_parts (parts r) = native"
      unfolding p m by (simp add: map_filter_simps calls_of_parts_append)
    with g show ?thesis by simp
  qed
  from plain nocall show ?thesis by blast
qed

lemma bare_block_opener_reply:
  "convertToGeminiResponse parse_foo (text_reply ''see [function_call] docs'') =
     Inr \<lparr>parts = [TextPart ''see [function_call] docs''], finishReason = STOP, usageMetadata = None,
          response_text = ''see [function_call] docs'', functionCalls = None\<rparr>"
  by code_simp

lemma plain_side_conditions:
  "\<not> includes_str ''hello world'' ''[function_call]''"
  "\<not> includes_str ''hello world'' ''[tool_call:''"
  "\<not> includes_str ''hello world'' ''Calling function ''"
  "match_all block_at ''see [function_call] docs'' = []"
  "match_all tool_call_at ''see [function_call] docs'' = []"
  "match_all simple_call_at ''see [function_call] docs'' = []"
  by code_simp+

theorem plain_text_identity_witness:
  "\<not> includes_str ''hello world'' ''[function_call]''
   \<and> \<not> includes_str ''hello world'' ''[tool_call:''
   \<and> \<not> includes_str ''hello world'' ''Calling function ''
   \<and> convertToGeminiResponse parse_foo (text_reply ''hello world'') =
        Inr \<lparr>parts = [TextPart ''hello world''], finishReason = STOP, usageMetadata = None,
             response_text = ''hello world'', functionCalls = None\<rparr>
   \<and> match_all block_at ''see [function_call] docs'' = []
   \<and> match_all tool_call_at ''see [function_call] docs'' = []
   \<and> match_all simple_call_at ''see [function_call] docs'' = []
   \<and> convertToGeminiResponse parse_foo (text_reply ''see [function_call] docs'') =
        Inr \<lparr>parts = [TextPart ''see [function_call] docs''], finishReason = STOP, usageMetadata = None,
             response_text = ''see [function_call] docs'', functionCalls = None\<rparr>
   \<and> calls_of_parts [TextPart ''see [function_call] docs''] = []"
proof -
  note s = plain_side_conditions
  have ch: "choices (text_reply x) =
      [\<lparr>message = \<lparr>content = Some x, tool_calls = None\<rparr>, finish_reason = Some ''stop''\<rparr>]" for x
    by (simp add: text_reply_def)
  have co: "content (message \<lparr>message = \<lparr>content = Some x, tool_calls = None\<rparr>,
      finish_reason = Some ''stop''\<rparr>) = Some x" for x :: string
    by simp
  have a: "convertToGeminiResponse parse_foo (text_reply ''hello world'') =
        Inr \<lparr>parts = [TextPart ''hello world''], finishReason = STOP, usageMetadata = None,
             response_text = ''hello world'', functionCalls = None\<rparr>"
    using plain_text_identity [OF ch co, of "''hello world''" parse_foo, THEN conjunct1] s(1-3)
    by (simp add: text_reply_def convert_finish_def convert_usage_def)
  have b: "calls_of_parts [TextPart ''see [function_call] docs''] = []"
    using plain_text_identity [OF ch co, of "''see [function_call] docs''" parse_foo, THEN conjunct2]
      s(4-6) bare_block_opener_reply
    by simp
  show ?thesis
    apply (intro conjI)
    apply (rule s a b bare_block_opener_reply)+
    done
qed

text \<open>The claim as stated has the visible text equal the input text whenever the text holds
  no marker of the three forms. An opener substring alone runs its form's cleaning pass: in
  \<open>note [tool_call: bad] end\<close> no form has a complete marker and no call is produced, yet the
  inline pattern of the cleaning pass (which asks less than the extracting one) deletes
  the bracket with the blanks around it.\<close>

theorem bare_opener_changes_text:
  "match_all block_at ''note [tool_call: bad] end'' = []
   \<and> match_all tool_call_at ''note [tool_call: bad] end'' = []
   \<and> match_all simple_call_at ''note [tool_call: bad] end'' = []
   \<and> convertToGeminiResponse parse_foo (text_reply ''note [tool_call: bad] end'') =
        Inr \<lparr>parts = [TextPart ''noteend''], finishReason = STOP, usageMetadata = None,
             response_text = ''noteend'', functionCalls = None\<rparr>"
  by code_simp

section \<open>Order of the parts\<close>

text \<open>
  C3, as amended. For every reply the non-streaming normalizer accepts, the function-call parts
  extracted from the textual marker forms stand in front of the cleaned text part, not after
  it. They are grouped by form, the calls of the block form first, then those of the inline
  form, then those of the natural-language form, and inside one form they follow the order of
  their source text. The text part, if the cleaned text is not empty, comes next, and the
  structured calls of the reply, which carry the backend's identifiers, come last.
\<close>

theorem text_calls_precede_text:
  assumes "choices response = choice # others"
      and "convertToGeminiResponse parse response = Inr r"
      and "c = content_or_empty (content (message choice))"
  shows "\<exists>native.
           parts r = map FunctionCallPart
               (List.map_filter (block_call parse ''grok_'') (match_all block_at c)
                @ map (tool_call_of ''grok_mini_'') (match_all tool_call_at c)
                @ map simple_call_of (match_all simple_call_at c))
             @ (if response_text r = [] then [] else [TextPart (response_text r)])
             @ map FunctionCallPart native
         \<and> (\<forall>fc\<in>set native. \<exists>s. fc_id fc = Given s)"
  using assms by (rule convert_parts(1))

lemma see_now_reply:
  "convertToGeminiResponse parse_foo (text_reply ''see [tool_call: b for p \"v\"] now'') =
     Inr \<lparr>parts = [FunctionCallPart \<lparr>fc_id = Generated ''grok_mini_'', fc_name = Some (JString ''b''),
                                     fc_args = JObject [(''p'', JString ''v'')]\<rparr>,
                    TextPart ''seenow''],
          finishReason = STOP, usageMetadata = None, response_text = ''seenow'',
          functionCalls = Some [\<lparr>fc_id = Generated ''grok_mini_'', fc_name = Some (JString ''b''),
                                 fc_args = JObject [(''p'', JString ''v'')]\<rparr>]\<rparr>"
  by code_simp

theorem text_calls_precede_text_witness:
  "choices (text_reply ''see [tool_call: b for p \"v\"] now'') =
     [\<lparr>message = \<lparr>content = Some ''see [tool_call: b for p \"v\"] now'', tool_calls = None\<rparr>,
       finish_reason = Some ''stop''\<rparr>]
   \<and> convertToGeminiResponse parse_foo (text_reply ''see [tool_call: b for p \"v\"] now'') =
     Inr \<lparr>parts = [FunctionCallPart \<lparr>fc_id = Generated ''grok_mini_'', fc_name = Some (JString ''b''),
                                     fc_args = JObject [(''p'', JString ''v'')]\<rparr>,
                    TextPart ''seenow''],
          finishReason = STOP, usageMetadata = None, response_text = ''seenow'',
          functionCalls = Some [\<lparr>fc_id = Generated ''grok_mini_'', fc_name = Some (JString ''b''),
                                 fc_args = JObject [(''p'', JString ''v'')]\<rparr>]\<rparr>
   \<and> match_all tool_call_at ''see [tool_call: b for p \"v\"] now'' = [(''b'', ''p'', ''v'')]"
proof -
  have m: "match_all tool_call_at ''see [tool_call: b for p \"v\"] now'' = [(''b'', ''p'', ''v'')]"
    by code_simp
  have c: "choices (text_reply ''see [tool_call: b for p \"v\"] now'') =
     [\<lparr>message = \<lparr>content = Some ''see [tool_call: b for p \"v\"] now'', tool_calls = None\<rparr>,
       finish_reason = Some ''stop''\<rparr>]"
    by (simp add: text_reply_def)
  from text_calls_precede_text [OF c see_now_reply refl] c see_now_reply m
  show ?thesis by simp
qed

text \<open>The claim as stated puts the extracted calls after the text part and in the order of
  their source text. In this reply the natural-language marker comes first in the text, yet
  its call is second, and both calls precede the text part.\<close>

theorem text_calls_not_after_text:
  "convertToGeminiResponse parse_foo
     (text_reply ''Calling function a then [tool_call: b for p \"v\"] done'') =
     Inr \<lparr>parts = [FunctionCallPart \<lparr>fc_id = Generated ''grok_mini_'', fc_name = Some (JString ''b''),
                                     fc_args = JObject [(''p'', JString ''v'')]\<rparr>,
                    FunctionCallPart \<lparr>fc_id = Generated ''grok_simple_'', fc_name = Some (JString ''a''),
                                     fc_args = JObject []\<rparr>,
                    TextPart ''then [tool_call: b for p \"v\"] done''],
          finishReason = STOP, usageMetadata = None,
          response_text = ''then [tool_call: b for p \"v\"] done'',
          functionCalls = Some [\<lparr>fc_id = Generated ''grok_mini_'', fc_name = Some (JString ''b''),
                                 fc_args = JObject [(''p'', JString ''v'')]\<rparr>,
                                \<lparr>fc_id = Generated ''grok_simple_'', fc_name = Some (JString ''a''),
                                 fc_args = JObject []\<rparr>]\<rparr>"
  by code_simp

section \<open>Each cleaning pass starts from the raw reply\<close>

text \<open>
  C10, as amended. In the non-streaming normalizer each form's cleaning pass recomputes the
  visible text from the raw reply content, not from the previous pass's output: for every
  accepted reply the visible text is the raw content with the deletions of one form only,
  trimmed, namely of the last form in the order block, inline, natural-language whose opener
  substring (\<open>[function_call]\<close>, \<open>[tool_call:\<close>, \<open>Calling function \<close>) occurs in the content,
  whether or not a marker of that form was extracted; with no opener it is the content unchanged.
  That pass deletes the first complete marker of its form and goes on behind it: a block whose
  body holds no close marker; \<open>[tool_call:\<close> up to the first \<open>]\<close>, with the blanks around it;
  \<open>Calling function\<close> and the name, with the blanks around them. A leading stretch of the reply
  that ends in \<open>]\<close> and holds no opener of that last form is kept as it is (up to the trim), so
  the markers of the earlier forms in it remain in the visible text.
\<close>

theorem text_from_last_form:
  assumes "choices response = choice # others"
      and "convertToGeminiResponse parse response = Inr r"
      and "content (message choice) = Some c"
  shows "response_text r =
           (if includes_str c ''Calling function '' then trim (remove_all simple_call_text_at c)
            else if includes_str c ''[tool_call:'' then trim (remove_all tool_call_text_at c)
            else if includes_str c ''[function_call]'' then trim (remove_all block_at c)
            else c)
         \<and> (c = pre @ ''[function_call]'' @ body @ ''[/function_call]'' @ post
              \<and> \<not> includes_str pre ''[function_call]'' \<and> \<not> includes_str body ''[/function_call]''
              \<and> \<not> includes_str c ''[tool_call:'' \<and> \<not> includes_str c ''Calling function '' \<longrightarrow>
              response_text r = trim (pre @ remove_all block_at post))
         \<and> (c = pre @ ws @ ''[tool_call:'' @ inner @ '']'' @ ws' @ post
              \<and> (pre = [] \<or> \<not> is_space (last pre))
              \<and> (\<forall>x\<in>set ws. is_space x) \<and> (\<forall>x\<in>set ws'. is_space x)
              \<and> \<not> includes_str (pre @ ws) ''[tool_call:''
              \<and> inner \<noteq> [] \<and> CHR '']'' \<notin> set inner \<and> (post = [] \<or> \<not> is_space (hd post))
              \<and> \<not> includes_str c ''Calling function '' \<longrightarrow>
              response_text r = trim (pre @ remove_all tool_call_text_at post))
         \<and> (c = pre @ ws @ ''Calling function '' @ name @ ws' @ post
              \<and> (pre = [] \<or> \<not> is_space (last pre))
              \<and> (\<forall>x\<in>set ws. is_space x) \<and> (\<forall>x\<in>set ws'. is_space x)
              \<and> \<not> includes_str (pre @ ws) ''Calling function ''
              \<and> name \<noteq> [] \<and> (\<forall>x\<in>set name. is_word x)
              \<and> (post = [] \<or> (\<not> is_space (hd post) \<and> (ws' \<noteq> [] \<or> \<not> is_word (hd post)))) \<longrightarrow>
              response_text r = trim (pre @ remove_all simple_call_text_at post))
         \<and> (c = a @ b \<and> a \<noteq> [] \<and> last a = CHR '']''
                \<and> \<not> includes_str a ''[tool_call:'' \<and> includes_str c ''[tool_call:''
                \<and> \<not> includes_str c ''Calling function '' \<longrightarrow>
                response_text r = dropWhile is_space a
                    @ rev (dropWhile is_space (rev (remove_all tool_call_text_at b))))
         \<and> (c = a @ b \<and> a \<noteq> [] \<and> last a = CHR '']''
                \<and> \<not> includes_str a ''Calling function '' \<and> includes_str c ''Calling function '' \<longrightarrow>
                response_text r = dropWhile is_space a
                    @ rev (dropWhile is_space (rev (remove_all simple_call_text_at b))))"
proof -
  have c: "c = content_or_empty (content (message choice))"
    using assms(3) by (simp add: content_or_empty_def)
  note t = convert_parts(2) [OF assms(1,2) c]
  have block: "response_text r = trim (pre @ remove_all block_at post)"
    if h: "c = pre @ ''[function_call]'' @ body @ ''[/function_call]'' @ post"
       "\<not> includes_str pre ''[function_call]''" "\<not> includes_str body ''[/function_call]''"
       "\<not> includes_str c ''[tool_call:''" "\<not> includes_str c ''Calling function ''"
  proof -
    have i: "includes_str c ''[function_call]''"
      unfolding h(1) by (rule includes_str_append)
    have "response_text r = trim (remove_all block_at c)"
      using t i h(4,5) by (simp only: if_True if_False)
    also have "remove_all block_at c = pre @ remove_all block_at post"
      unfolding h(1) by (rule remove_block(1) [OF h(2,3)])
    finally show ?thesis .
  qed
  have inline: "response_text r = trim (pre @ remove_all tool_call_text_at post)"
    if h: "c = pre @ ws @ ''[tool_call:'' @ inner @ '']'' @ ws' @ post"
       "pre = [] \<or> \<not> is_space (last pre)"
       "\<forall>x\<in>set ws. is_space x" "\<forall>x\<in>set ws'. is_space x"
       "\<not> includes_str (pre @ ws) ''[tool_call:''"
       "inner \<noteq> []" "CHR '']'' \<notin> set inner" "post = [] \<or> \<not> is_space (hd post)"
       "\<not> includes_str c ''Calling function ''"
  proof -
    have i: "includes_str c ''[tool_call:''"
      unfolding h(1)
      by (rule includes_str_append [of "pre @ ws" "''[tool_call:''" "inner @ '']'' @ ws' @ post",
            unfolded append_assoc])
    have "response_text r = trim (remove_all tool_call_text_at c)"
      using t i h(9) by (simp only: if_True if_False)
    also have "remove_all tool_call_text_at c = pre @ remove_all tool_call_text_at post"
      unfolding h(1) by (rule remove_tool_text [OF h(2-8)])
    finally show ?thesis .
  qed
  have natural: "response_text r = trim (pre @ remove_all simple_call_text_at post)"
    if h: "c = pre @ ws @ ''Calling function '' @ name @ ws' @ post"
       "pre = [] \<or> \<not> is_space (last pre)"
       "\<forall>x\<in>set ws. is_space x" "\<forall>x\<in>set ws'. is_space x"
       "\<not> includes_str (pre @ ws) ''Calling function ''"
       "name \<noteq> []" "\<forall>x\<in>set name. is_word x"
       "post = [] \<or> (\<not> is_space (hd post) \<and> (ws' \<noteq> [] \<or> \<not> is_word (hd post)))"
  proof -
    have i: "includes_str c ''Calling function ''"
      unfolding h(1)
      by (rule includes_str_append [of "pre @ ws" "''Calling function ''" "name @ ws' @ post",
            unfolded append_assoc])
    have "response_text r = trim (remove_all simple_call_text_at c)"
      using t i by (simp only: if_True)
    also have "remove_all simple_call_text_at c = pre @ remove_all simple_call_text_at post"
      unfolding h(1) by (rule remove_simple_text [OF h(2-8)])
    finally show ?thesis .
  qed
  have tool: "response_text r = dropWhile is_space a
                    @ rev (dropWhile is_space (rev (remove_all tool_call_text_at b)))"
    if "c = a @ b" "a \<noteq> []" "last a = CHR '']''" "\<not> includes_str a ''[tool_call:''"
       "includes_str c ''[tool_call:''" "\<not> includes_str c ''Calling function ''"
  proof -
    have "response_text r = trim (remove_all tool_call_text_at (a @ b))"
      using t that by simp
    also have "\<dots> = trim (a @ remove_all tool_call_text_at b)"
      using that by (simp add: remove_tool_text_keeps)
    finally show ?thesis using that by (simp add: trim_append_keep bracket_not_space)
  qed
  have simple: "response_text r = dropWhile is_space a
                    @ rev (dropWhile is_space (rev (remove_all simple_call_text_at b)))"
    if "c = a @ b" "a \<noteq> []" "last a = CHR '']''" "\<not> includes_str a ''Calling function ''"
       "includes_str c ''Calling function ''"
  proof -
    have "response_text r = trim (remove_all simple_call_text_at (a @ b))"
      using t that by simp
    also have "\<dots> = trim (a @ remove_all simple_call_text_at b)"
      using that by (simp add: remove_simple_text_keeps)
    finally show ?thesis using that by (simp add: trim_append_keep bracket_not_space)
  qed
  show ?thesis
    apply (intro conjI impI)
         apply (rule t)
        apply (elim conjE, rule block, assumption+)
       apply (elim conjE, rule inline, assumption+)
      apply (elim conjE, rule natural, assumption+)
     apply (elim conjE, rule tool, assumption+)
    apply (elim conjE, rule simple, assumption+)
    done
qed

lemma inline_after_block_reply:
  "convertToGeminiResponse parse_foo
     (text_reply (foo_block @ '' '' @ ''[tool_call:'' @ '' read_file for path \"a.txt\"'' @ '']'' @ [] @ [])) =
     Inr \<lparr>parts = [FunctionCallPart \<lparr>fc_id = Generated ''grok_'', fc_name = Some (JString ''foo''),
                                     fc_args = JObject [(''x'', JNumber 1)]\<rparr>,
                    FunctionCallPart \<lparr>fc_id = Generated ''grok_mini_'', fc_name = Some (JString ''read_file''),
                                     fc_args = JObject [(''path'', JString ''a.txt'')]\<rparr>,
                    TextPart foo_block],
          finishReason = STOP, usageMetadata = None, response_text = foo_block,
          functionCalls = Some [\<lparr>fc_id = Generated ''grok_'', fc_name = Some (JString ''foo''),
                                 fc_args = JObject [(''x'', JNumber 1)]\<rparr>,
                                \<lparr>fc_id = Generated ''grok_mini_'', fc_name = Some (JString ''read_file''),
                                 fc_args = JObject [(''path'', JString ''a.txt'')]\<rparr>]\<rparr>"
  by code_simp

lemma natural_after_block_reply:
  "convertToGeminiResponse parse_foo
     (text_reply (foo_block @ '' '' @ ''Calling function '' @ ''bar'' @ [] @ [])) =
     Inr \<lparr>parts = [FunctionCallPart \<lparr>fc_id = Generated ''grok_'', fc_name = Some (JString ''foo''),
                                     fc_args = JObject [(''x'', JNumber 1)]\<rparr>,
                    FunctionCallPart \<lparr>fc_id = Generated ''grok_simple_'', fc_name = Some (JString ''bar''),
                                     fc_args = JObject []\<rparr>,
                    TextPart foo_block],
          finishReason = STOP, usageMetadata = None, response_text = foo_block,
          functionCalls = Some [\<lparr>fc_id = Generated ''grok_'', fc_name = Some (JString ''foo''),
                                 fc_args = JObject [(''x'', JNumber 1)]\<rparr>,
                                \<lparr>fc_id = Generated ''grok_simple_'', fc_name = Some (JString ''bar''),
                                 fc_args = JObject []\<rparr>]\<rparr>"
  by code_simp

lemma block_after_text_reply:
  "convertToGeminiResponse parse_foo
     (text_reply (''ok '' @ ''[function_call]'' @ foo_json @ ''[/function_call]'' @ [])) =
     Inr \<lparr>parts = [FunctionCallPart \<lparr>fc_id = Generated ''grok_'', fc_name = Some (JString ''foo''),
                                     fc_args = JObject [(''x'', JNumber 1)]\<rparr>,
                    TextPart ''ok''],
          finishReason = STOP, usageMetadata = None, response_text = ''ok'',
          functionCalls = Some [\<lparr>fc_id = Generated ''grok_'', fc_name = Some (JString ''foo''),
                                 fc_args = JObject [(''x'', JNumber 1)]\<rparr>]\<rparr>"
  by code_simp

lemma last_form_side_conditions:
  "\<not> includes_str ''ok '' ''[function_call]''"
  "\<not> includes_str foo_json ''[/function_call]''"
  "\<not> includes_str (''ok '' @ ''[function_call]'' @ foo_json @ ''[/function_call]'' @ []) ''[tool_call:''"
  "\<not> includes_str (''ok '' @ ''[function_call]'' @ foo_json @ ''[/function_call]'' @ []) ''Calling function ''"
  "\<not> is_space (last foo_block)"
  "\<not> includes_str (foo_block @ '' '') ''[tool_call:''"
  "\<not> includes_str (foo_block @ '' '') ''Calling function ''"
  "CHR '']'' \<notin> set '' read_file for path \"a.txt\"''"
  "\<not> includes_str (foo_block @ '' '' @ ''[tool_call:'' @ '' read_file for path \"a.txt\"'' @ '']'' @ [] @ [])
       ''Calling function ''"
  "is_space CHR '' ''" "is_word CHR ''b''" "is_word CHR ''a''" "is_word CHR ''r''"
  "foo_block \<noteq> []" "last foo_block = CHR '']''"
  "\<not> includes_str foo_block ''[tool_call:''" "\<not> includes_str foo_block ''Calling function ''"
  by code_simp+

theorem text_from_last_form_witness:
  "\<not> includes_str ''ok '' ''[function_call]'' \<and> \<not> includes_str foo_json ''[/function_call]''
   \<and> \<not> is_space (last foo_block) \<and> is_space CHR '' ''
   \<and> \<not> includes_str (foo_block @ '' '') ''[tool_call:''
   \<and> \<not> includes_str (foo_block @ '' '') ''Calling function ''
   \<and> CHR '']'' \<notin> set '' read_file for path \"a.txt\"''
   \<and> is_word CHR ''b'' \<and> is_word CHR ''a'' \<and> is_word CHR ''r''
   \<and> foo_block \<noteq> [] \<and> last foo_block = CHR '']''
   \<and> replied_text parse_foo (''ok '' @ ''[function_call]'' @ foo_json @ ''[/function_call]'' @ []) = ''ok''
   \<and> ''ok'' = trim (''ok '' @ remove_all block_at [])
   \<and> replied_text parse_foo
         (foo_block @ '' '' @ ''[tool_call:'' @ '' read_file for path \"a.txt\"'' @ '']'' @ [] @ []) = foo_block
   \<and> foo_block = trim (foo_block @ remove_all tool_call_text_at [])
   \<and> replied_text parse_foo (foo_block @ '' '' @ ''Calling function '' @ ''bar'' @ [] @ []) = foo_block
   \<and> foo_block = trim (foo_block @ remove_all simple_call_text_at [])
   \<and> foo_block = dropWhile is_space foo_block @ rev (dropWhile is_space (rev (remove_all tool_call_text_at
         ('' '' @ ''[tool_call:'' @ '' read_file for path \"a.txt\"'' @ '']'' @ [] @ []))))
   \<and> foo_block = dropWhile is_space foo_block @ rev (dropWhile is_space (rev (remove_all simple_call_text_at
         ('' '' @ ''Calling function '' @ ''bar'' @ [] @ []))))"
proof -
  note s = last_form_side_conditions
  have ch: "choices (text_reply x) =
      [\<lparr>message = \<lparr>content = Some x, tool_calls = None\<rparr>, finish_reason = Some ''stop''\<rparr>]" for x
    by (simp add: text_reply_def)
  have co: "content (message \<lparr>message = \<lparr>content = Some x, tool_calls = None\<rparr>,
      finish_reason = Some ''stop''\<rparr>) = Some x" for x :: string
    by simp
  have sp: "\<forall>x\<in>set '' ''. is_space x" "\<forall>x\<in>set []. is_space x" "\<forall>x\<in>set ''bar''. is_word x"
    using s(10-13) by simp_all
  note t1 = text_from_last_form [where pre = "''ok ''" and body = foo_json and post = "[]",
      OF ch block_after_text_reply co]
  have b: "''ok'' = trim (''ok '' @ remove_all block_at [])"
    using t1 [THEN conjunct2, THEN conjunct1] s(1-4) by simp
  note t2 = text_from_last_form [where pre = foo_block and ws = "'' ''"
      and inner = "'' read_file for path \"a.txt\"''" and ws' = "[]" and post = "[]"
      and a = foo_block and b = "'' '' @ ''[tool_call:'' @ '' read_file for path \"a.txt\"'' @ '']'' @ [] @ []",
      OF ch inline_after_block_reply co]
  have i: "foo_block = trim (foo_block @ remove_all tool_call_text_at [])"
    using t2 [THEN conjunct2, THEN conjunct2, THEN conjunct1] s(5,6,8,9) sp(1,2) by simp
  have i2: "includes_str (foo_block @ '' '' @ ''[tool_call:'' @ '' read_file for path \"a.txt\"'' @ '']'' @ [] @ [])
       ''[tool_call:''"
    by (rule includes_str_append [of "foo_block @ '' ''" "''[tool_call:''"
          "'' read_file for path \"a.txt\"'' @ '']'' @ [] @ []", unfolded append_assoc])
  have k: "foo_block = dropWhile is_space foo_block @ rev (dropWhile is_space (rev (remove_all tool_call_text_at
         ('' '' @ ''[tool_call:'' @ '' read_file for path \"a.txt\"'' @ '']'' @ [] @ []))))"
    using t2 [THEN conjunct2, THEN conjunct2, THEN conjunct2, THEN conjunct2, THEN conjunct1]
      s(9,14,15,16) i2 by simp
  note t3 = text_from_last_form [where pre = foo_block and ws = "'' ''"
      and name = "''bar''" and ws' = "[]" and post = "[]"
      and a = foo_block and b = "'' '' @ ''Calling function '' @ ''bar'' @ [] @ []",
      OF ch natural_after_block_reply co]
  have n: "foo_block = trim (foo_block @ remove_all simple_call_text_at [])"
    using t3 [THEN conjunct2, THEN conjunct2, THEN conjunct2, THEN conjunct1] s(5,7) sp by simp
  have n2: "includes_str (foo_block @ '' '' @ ''Calling function '' @ ''bar'' @ [] @ []) ''Calling function ''"
    by (rule includes_str_append [of "foo_block @ '' ''" "''Calling function ''"
          "''bar'' @ [] @ []", unfolded append_assoc])
  have l: "foo_block = dropWhile is_space foo_block @ rev (dropWhile is_space (rev (remove_all simple_call_text_at
         ('' '' @ ''Calling function '' @ ''bar'' @ [] @ []))))"
    using t3 [THEN conjunct2, THEN conjunct2, THEN conjunct2, THEN conjunct2, THEN conjunct2]
      s(14,15,17) n2 by simp
  have r1: "replied_text parse_foo (''ok '' @ ''[function_call]'' @ foo_json @ ''[/function_call]'' @ []) = ''ok''"
    by (simp only: replied_text_def block_after_text_reply) simp
  have r2: "replied_text parse_foo
         (foo_block @ '' '' @ ''[tool_call:'' @ '' read_file for path \"a.txt\"'' @ '']'' @ [] @ []) = foo_block"
    by (simp only: replied_text_def inline_after_block_reply) simp
  have r3: "replied_text parse_foo (foo_block @ '' '' @ ''Calling function '' @ ''bar'' @ [] @ []) = foo_block"
    by (simp only: replied_text_def natural_after_block_reply) simp
  show ?thesis
    apply (intro conjI)
    apply (rule s b i k n l r1 r2 r3 | fact)+
    done
qed

text \<open>The claim as stated has the visible text lose the markers of the last form that matched
  and keep those of the earlier forms, for every reply with markers of two forms. The inline
  deletion stops at the first \<open>]\<close>, so an inline marker whose value holds a \<open>]\<close> is extracted as a
  call and leaves its tail in the text, while the block before it is cut into; and a
  \<open>Calling function \<close> without a name runs the natural-language pass, which deletes nothing, so
  the inline marker that matched stays in the text.\<close>

theorem last_form_marker_stays:
  "replied_text parse_foo (foo_block @ '' [tool_call: read_file for path \"src/[id]/page.tsx\"]'')
     = foo_block @ ''/page.tsx\"]''
   \<and> map fc_name (replied_calls parse_foo
         (foo_block @ '' [tool_call: read_file for path \"src/[id]/page.tsx\"]''))
     = [Some (JString ''foo''), Some (JString ''read_file'')]
   \<and> replied_text parse_foo (foo_block @ '' [tool_call: f for p \"v\"] Calling function !'')
     = foo_block @ '' [tool_call: f for p \"v\"] Calling function !''
   \<and> map fc_name (replied_calls parse_foo (foo_block @ '' [tool_call: f for p \"v\"] Calling function !''))
     = [Some (JString ''foo''), Some (JString ''f'')]"
  by code_simp

section \<open>Reading under the token budget\<close>

lemma estimateTokens_div: "estimateTokens s = (int (length s) + 3) div 4"
  by (simp add: estimateTokens_def ceil_quarter_div)

lemma budgeted_read_abort:
  "aborted i \<Longrightarrow> budgeted_read aborted relative fs i (f # rest) st = st"
  by simp

lemma budgeted_read_skip:
  "\<not> aborted i \<Longrightarrow> fs f = NotString \<or> fs f = ReadThrows \<Longrightarrow>
     budgeted_read aborted relative fs i (f # rest) st =
       budgeted_read aborted relative fs (Suc i) rest (st\<lparr>reads := reads st @ [f]\<rparr>)"
  by auto

lemma budgeted_read_fit:
  "\<not> aborted i \<Longrightarrow> fs f = StringContent llm \<Longrightarrow>
   totalTokens st + estimateTokens llm \<le> maxTokenBudget \<Longrightarrow>
     budgeted_read aborted relative fs i (f # rest) st =
       budgeted_read aborted relative fs (Suc i) rest
         (st\<lparr>contentParts := contentParts st @
                 [separator (relative f) @ [CHR 0x0A, CHR 0x0A] @ llm @ [CHR 0x0A, CHR 0x0A]],
              processedFilesRelativePaths := processedFilesRelativePaths st @ [relative f],
              totalTokens := totalTokens st + estimateTokens llm,
              reads := reads st @ [f],
              appended := appended st @ [(llm, False)]\<rparr>)"
  by (simp add: Let_def)

lemma budgeted_read_truncate:
  "\<not> aborted i \<Longrightarrow> fs f = StringContent llm \<Longrightarrow>
   maxTokenBudget < totalTokens st + estimateTokens llm \<Longrightarrow>
   totalTokens st \<le> maxTokenBudget \<Longrightarrow>
     budgeted_read aborted relative fs i (f # rest) st =
       st\<lparr>contentParts := contentParts st @
              [truncated_part (relative f) (take (nat (4 * (maxTokenBudget - totalTokens st))) llm)],
          processedFilesRelativePaths := processedFilesRelativePaths st @ [relative f],
          reads := reads st @ [f],
          appended := appended st @ [(take (nat (4 * (maxTokenBudget - totalTokens st))) llm, True)]\<rparr>"
  by (simp add: Let_def truncated_part_def max_def mult.commute)

lemma truncated_length:
  assumes "maxTokenBudget < t + estimateTokens llm" and "t \<le> maxTokenBudget"
  shows "int (length (take (nat (4 * (maxTokenBudget - t))) llm)) = 4 * (maxTokenBudget - t)"
    and "estimateTokens (take (nat (4 * (maxTokenBudget - t))) llm) = maxTokenBudget - t"
proof -
  from assms have "4 * (maxTokenBudget - t) < int (length llm)"
    unfolding estimateTokens_div by presburger
  with assms(2) show l: "int (length (take (nat (4 * (maxTokenBudget - t))) llm)) = 4 * (maxTokenBudget - t)"
    by simp
  show "estimateTokens (take (nat (4 * (maxTokenBudget - t))) llm) = maxTokenBudget - t"
    unfolding estimateTokens_div l by presburger
qed

lemma budgeted_read_invariant:
  assumes "totalTokens st0 \<le> maxTokenBudget"
      and "appended_tokens st0 = totalTokens st0"
      and "\<forall>x\<in>set (appended st0). \<not> snd x"
  shows "\<exists>d. reads (budgeted_read aborted relative fs i files st0) = reads st0 @ d \<and> prefix d files
           \<and> appended_tokens (budgeted_read aborted relative fs i files st0) \<le> maxTokenBudget
           \<and> totalTokens (budgeted_read aborted relative fs i files st0) \<le> maxTokenBudget
           \<and> ((\<forall>x\<in>set (appended (budgeted_read aborted relative fs i files st0)). \<not> snd x)
              \<or> (\<exists>ok llm. appended (budgeted_read aborted relative fs i files st0)
                       = ok @ [(take (nat (4 * (maxTokenBudget
                             - totalTokens (budgeted_read aborted relative fs i files st0)))) llm, True)]
                    \<and> (\<forall>x\<in>set ok. \<not> snd x)
                    \<and> d \<noteq> [] \<and> fs (last d) = StringContent llm
                    \<and> maxTokenBudget < totalTokens (budgeted_read aborted relative fs i files st0)
                          + estimateTokens llm
                    \<and> contentParts (budgeted_read aborted relative fs i files st0) \<noteq> []
                    \<and> last (contentParts (budgeted_read aborted relative fs i files st0))
                        = truncated_part (relative (last d))
                            (take (nat (4 * (maxTokenBudget
                               - totalTokens (budgeted_read aborted relative fs i files st0)))) llm)))"
  (is "\<exists>d. ?post st0 files i d")
  using assms
proof (induction files arbitrary: st0 i)
  case Nil
  then have "?post st0 [] i []" by simp
  then show ?case by blast
next
  case (Cons f rest)
  consider (abort) "aborted i"
    | (skip) "\<not> aborted i" "fs f = NotString \<or> fs f = ReadThrows"
    | (fit) llm where "\<not> aborted i" "fs f = StringContent llm"
        "totalTokens st0 + estimateTokens llm \<le> maxTokenBudget"
    | (trunc) llm where "\<not> aborted i" "fs f = StringContent llm"
        "maxTokenBudget < totalTokens st0 + estimateTokens llm"
    by (cases "fs f"; cases "aborted i") (auto simp: not_le, force)
  then show ?case
  proof cases
    case abort
    with Cons.prems have "?post st0 (f # rest) i []" by simp
    then show ?thesis by blast
  next
    case skip
    let ?s = "st0\<lparr>reads := reads st0 @ [f]\<rparr>"
    have e: "budgeted_read aborted relative fs i (f # rest) st0
        = budgeted_read aborted relative fs (Suc i) rest ?s"
      using skip by (rule budgeted_read_skip)
    have "\<exists>d. ?post ?s rest (Suc i) d"
      using Cons.prems by (intro Cons.IH) (simp_all add: appended_tokens_def)
    then obtain d where d: "?post ?s rest (Suc i) d" by blast
    have "?post st0 (f # rest) i (f # d)"
      unfolding e using d by auto
    then show ?thesis by blast
  next
    case fit
    let ?s = "st0\<lparr>contentParts := contentParts st0 @
                 [separator (relative f) @ [CHR 0x0A, CHR 0x0A] @ llm @ [CHR 0x0A, CHR 0x0A]],
              processedFilesRelativePaths := processedFilesRelativePaths st0 @ [relative f],
              totalTokens := totalTokens st0 + estimateTokens llm,
              reads := reads st0 @ [f],
              appended := appended st0 @ [(llm, False)]\<rparr>"
    have e: "budgeted_read aborted relative fs i (f # rest) st0
        = budgeted_read aborted relative fs (Suc i) rest ?s"
      using fit by (rule budgeted_read_fit)
    have "\<exists>d. ?post ?s rest (Suc i) d"
      using Cons.prems fit(3) by (intro Cons.IH) (simp_all add: appended_tokens_def)
    then obtain d where d: "?post ?s rest (Suc i) d" by blast
    have "?post st0 (f # rest) i (f # d)"
      unfolding e using d by auto
    then show ?thesis by blast
  next
    case trunc
    let ?cut = "take (nat (4 * (maxTokenBudget - totalTokens st0))) llm"
    have e: "budgeted_read aborted relative fs i (f # rest) st0
        = st0\<lparr>contentParts := contentParts st0 @ [truncated_part (relative f) ?cut],
          processedFilesRelativePaths := processedFilesRelativePaths st0 @ [relative f],
          reads := reads st0 @ [f],
          appended := appended st0 @ [(?cut, True)]\<rparr>"
      using trunc Cons.prems(1) by (rule budgeted_read_truncate)
    have t: "estimateTokens ?cut = maxTokenBudget - totalTokens st0"
      using trunc(3) Cons.prems(1) by (rule truncated_length(2))
    have "?post st0 (f # rest) i [f]"
      unfolding e using Cons.prems trunc t by (simp add: appended_tokens_def)
    then show ?thesis by blast
  qed
qed

text \<open>
  C2. In the budgeted-read stage the estimated tokens of the file texts appended, added up,
  never exceed the fixed budget of 100,000 tokens, and neither does the running count. At
  most one truncation marker is appended. When a marker is appended it belongs to the last
  part pushed, which is for the last file read: appending that file whole would have exceeded
  the budget, its text was cut to four characters per token of the budget that remained, and
  the files after it were not read. The files that were read are an initial stretch of the
  selection, in order. The last conjunct is the round itself: a file that would exceed the
  budget is cut, marked, and ends the loop whatever files follow.
\<close>

theorem budgeted_read_within_budget:
  assumes "st = budgeted_read aborted relative fs 0 selectedFiles initial_budget_state"
  shows "maxTokenBudget = 100000
     \<and> appended_tokens st \<le> maxTokenBudget
     \<and> totalTokens st \<le> maxTokenBudget
     \<and> length (filter snd (appended st)) \<le> 1
     \<and> prefix (reads st) selectedFiles
     \<and> ((\<exists>x\<in>set (appended st). snd x) \<longrightarrow>
           snd (last (appended st)) \<and> reads st \<noteq> []
           \<and> (\<exists>llm. fs (last (reads st)) = StringContent llm
                 \<and> maxTokenBudget < totalTokens st + estimateTokens llm
                 \<and> fst (last (appended st)) = take (nat (4 * (maxTokenBudget - totalTokens st))) llm
                 \<and> int (length (fst (last (appended st)))) = 4 * (maxTokenBudget - totalTokens st)
                 \<and> last (contentParts st)
                     = truncated_part (relative (last (reads st))) (fst (last (appended st)))))
     \<and> (\<not> aborted i \<and> fs f = StringContent llm' \<and> totalTokens s \<le> maxTokenBudget
          \<and> maxTokenBudget < totalTokens s + estimateTokens llm' \<longrightarrow>
          budgeted_read aborted relative fs i (f # rest) s =
            s\<lparr>contentParts := contentParts s @
                  [truncated_part (relative f) (take (nat (4 * (maxTokenBudget - totalTokens s))) llm')],
              processedFilesRelativePaths := processedFilesRelativePaths s @ [relative f],
              reads := reads s @ [f],
              appended := appended s @ [(take (nat (4 * (maxTokenBudget - totalTokens s))) llm', True)]\<rparr>)"
proof -
  have init: "totalTokens initial_budget_state \<le> maxTokenBudget"
    "appended_tokens initial_budget_state = totalTokens initial_budget_state"
    "\<forall>x\<in>set (appended initial_budget_state). \<not> snd x"
    by (simp_all add: initial_budget_state_def maxTokenBudget_def appended_tokens_def)
  from budgeted_read_invariant [OF init, of aborted relative fs 0 selectedFiles]
  obtain d where r: "reads st = reads initial_budget_state @ d" and p: "prefix d selectedFiles"
    and a: "appended_tokens st \<le> maxTokenBudget" and t: "totalTokens st \<le> maxTokenBudget"
    and c: "(\<forall>x\<in>set (appended st). \<not> snd x)
              \<or> (\<exists>ok llm. appended st = ok @ [(take (nat (4 * (maxTokenBudget - totalTokens st))) llm, True)]
                    \<and> (\<forall>x\<in>set ok. \<not> snd x)
                    \<and> d \<noteq> [] \<and> fs (last d) = StringContent llm
                    \<and> maxTokenBudget < totalTokens st + estimateTokens llm
                    \<and> contentParts st \<noteq> []
                    \<and> last (contentParts st)
                        = truncated_part (relative (last d))
                            (take (nat (4 * (maxTokenBudget - totalTokens st))) llm))"
    unfolding assms by blast
  have rd: "reads st = d" using r by (simp add: initial_budget_state_def)
  have one: "length (filter snd (appended st)) \<le> 1"
  proof -
    from c consider "\<forall>x\<in>set (appended st). \<not> snd x"
      | ok y where "appended st = ok @ [y]" "\<forall>x\<in>set ok. \<not> snd x" by blast
    then show ?thesis
    proof cases
      case 1
      then have "filter snd (appended st) = []" by (simp add: filter_empty_conv)
      then show ?thesis by simp
    next
      case 2
      then have "filter snd ok = []" by (simp add: filter_empty_conv)
      with 2 show ?thesis by simp
    qed
  qed
  have cut: "snd (last (appended st)) \<and> reads st \<noteq> []
           \<and> (\<exists>llm. fs (last (reads st)) = StringContent llm
                 \<and> maxTokenBudget < totalTokens st + estimateTokens llm
                 \<and> fst (last (appended st)) = take (nat (4 * (maxTokenBudget - totalTokens st))) llm
                 \<and> int (length (fst (last (appended st)))) = 4 * (maxTokenBudget - totalTokens st)
                 \<and> last (contentParts st)
                     = truncated_part (relative (last (reads st))) (fst (last (appended st))))"
    if "\<exists>x\<in>set (appended st). snd x"
  proof -
    from c that obtain ok llm where
      ap: "appended st = ok @ [(take (nat (4 * (maxTokenBudget - totalTokens st))) llm, True)]"
      and d: "d \<noteq> []" and f: "fs (last d) = StringContent llm"
      and ex: "maxTokenBudget < totalTokens st + estimateTokens llm"
      and lc: "last (contentParts st) = truncated_part (relative (last d))
                            (take (nat (4 * (maxTokenBudget - totalTokens st))) llm)"
      by blast
    have len: "int (length (take (nat (4 * (maxTokenBudget - totalTokens st))) llm))
        = 4 * (maxTokenBudget - totalTokens st)"
      using ex t by (rule truncated_length(1))
    from ap d f ex lc len show ?thesis unfolding rd by auto
  qed
  have step: "budgeted_read aborted relative fs i (f # rest) s =
            s\<lparr>contentParts := contentParts s @
                  [truncated_part (relative f) (take (nat (4 * (maxTokenBudget - totalTokens s))) llm')],
              processedFilesRelativePaths := processedFilesRelativePaths s @ [relative f],
              reads := reads s @ [f],
              appended := appended s @ [(take (nat (4 * (maxTokenBudget - totalTokens s))) llm', True)]\<rparr>"
    if "\<not> aborted i \<and> fs f = StringContent llm' \<and> totalTokens s \<le> maxTokenBudget
          \<and> maxTokenBudget < totalTokens s + estimateTokens llm'"
    using that by (intro budgeted_read_truncate) simp_all
  have m: "maxTokenBudget = 100000" by (simp add: maxTokenBudget_def)
  from m a t one p cut step show ?thesis unfolding rd by blast
qed

lemma three_files_run:
  "budgeted_read never_aborted id (file_of_length 240000) 0 [''a'', ''b'', ''c''] initial_budget_state
     = \<lparr>contentParts = [separator ''a'' @ [CHR 0x0A, CHR 0x0A] @ replicate 240000 CHR ''a'' @ [CHR 0x0A, CHR 0x0A],
                        truncated_part ''b'' (replicate 160000 CHR ''a'')],
        processedFilesRelativePaths = [''a'', ''b''], totalTokens = 60000,
        reads = [''a'', ''b''],
        appended = [(replicate 240000 CHR ''a'', False), (replicate 160000 CHR ''a'', True)]\<rparr>"
  by (simp add: initial_budget_state_def never_aborted_def file_of_length_def
      estimateTokens_div maxTokenBudget_def Let_def truncated_part_def)

theorem budgeted_read_within_budget_witness:
  "budgeted_read never_aborted id (file_of_length 240000) 0 [''a'', ''b'', ''c''] initial_budget_state
     = \<lparr>contentParts = [separator ''a'' @ [CHR 0x0A, CHR 0x0A] @ replicate 240000 CHR ''a'' @ [CHR 0x0A, CHR 0x0A],
                        truncated_part ''b'' (replicate 160000 CHR ''a'')],
        processedFilesRelativePaths = [''a'', ''b''], totalTokens = 60000,
        reads = [''a'', ''b''],
        appended = [(replicate 240000 CHR ''a'', False), (replicate 160000 CHR ''a'', True)]\<rparr>
   \<and> appended_tokens \<lparr>contentParts = [separator ''a'' @ [CHR 0x0A, CHR 0x0A] @ replicate 240000 CHR ''a'' @ [CHR 0x0A, CHR 0x0A],
                        truncated_part ''b'' (replicate 160000 CHR ''a'')],
        processedFilesRelativePaths = [''a'', ''b''], totalTokens = 60000,
        reads = [''a'', ''b''],
        appended = [(replicate 240000 CHR ''a'', False), (replicate 160000 CHR ''a'', True)]\<rparr> \<le> 100000
   \<and> prefix [''a'', ''b''] [''a'', ''b'', ''c'']
   \<and> file_of_length 240000 ''b'' = StringContent (replicate 240000 CHR ''a'')
   \<and> maxTokenBudget < 60000 + estimateTokens (replicate 240000 CHR ''a'')
   \<and> replicate 160000 CHR ''a'' = take (nat (4 * (maxTokenBudget - 60000))) (replicate 240000 CHR ''a'')"
  using budgeted_read_within_budget [OF three_files_run [symmetric], of 0 "''b''" "replicate 240000 CHR ''a''"
      "\<lparr>contentParts = [], processedFilesRelativePaths = [], totalTokens = 60000, reads = [], appended = []\<rparr>" "[]"]
        three_files_run
  by (simp add: file_of_length_def maxTokenBudget_def estimateTokens_div)

section \<open>Streaming against the non-streamed response\<close>

text \<open>Where the two paths agree. For a backend text delivered in pieces that contains none of
  the openers \<open>[function_call]\<close>, \<open>[tool_call:\<close> and \<open>Calling function \<close>, the streamed path
  yields one text-only delta per non-empty piece; the text parts of its deltas, concatenated,
  are the text, which is also the text part of the non-streamed response, and neither mode
  emits a function call. In every round of the streamed path the block-form calls emitted are
  those of the complete blocks found in the buffer, in order, at most one for each; a block is
  found only when the buffer holds both the open and the close marker; the scan splits the
  buffer into the characters it keeps and the blocks it found, and the buffer carried to the
  next round is what is left when these blocks are deleted and the result is trimmed and
  passed through the deletion of the inline form.\<close>

lemma stream_round_bookkeeping:
  "(\<not> includes_str (concat ds) ''[function_call]'' \<and> \<not> includes_str (concat ds) ''[tool_call:''
      \<and> \<not> includes_str (concat ds) ''Calling function '' \<longrightarrow>
      convertStreamToGeminiFormat parse (map text_chunk ds)
        = (map plain_delta (filter (\<lambda>d. d \<noteq> []) ds), None)
      \<and> streamed_text parse ds = concat ds \<and> replied_text parse (concat ds) = concat ds
      \<and> streamed_calls parse ds = [] \<and> replied_calls parse (concat ds) = [])
   \<and> fst (stream_round parse acc choice)
       = buffer_after (acc @ content_or_empty (delta_content (delta choice)))
   \<and> (stream_round parse acc choice = (acc', Inr (Some r)) \<longrightarrow>
        filter (\<lambda>fc. fc_id fc = Generated ''grok_stream_'') (calls_of_parts (parts r))
          = List.map_filter (block_call parse ''grok_stream_'')
              (match_all block_at (acc @ content_or_empty (delta_content (delta choice)))))
   \<and> (match_all block_at buf \<noteq> [] \<longrightarrow>
        includes_str buf ''[function_call]'' \<and> includes_str buf ''[/function_call]'')
   \<and> concat (map block_token_text (regex_scan block_at buf)) = buf"
proof -
  have plain: "convertStreamToGeminiFormat parse (map text_chunk ds)
        = (map plain_delta (filter (\<lambda>d. d \<noteq> []) ds), None)
      \<and> streamed_text parse ds = concat ds \<and> replied_text parse (concat ds) = concat ds
      \<and> streamed_calls parse ds = [] \<and> replied_calls parse (concat ds) = []"
    if h: "\<not> includes_str (concat ds) ''[function_call]''" "\<not> includes_str (concat ds) ''[tool_call:''"
      "\<not> includes_str (concat ds) ''Calling function ''"
  proof -
    have s: "convertStreamToGeminiFormat parse (map text_chunk ds)
        = (map plain_delta (filter (\<lambda>d. d \<noteq> []) ds), None)"
      unfolding convertStreamToGeminiFormat_def
      by (rule stream_loop_plain) (use h in simp_all)
    have st: "streamed_text parse ds = concat ds"
      by (simp only: streamed_text_def s fst_conv plain_stream_text concat_nonempty)
    have sc: "streamed_calls parse ds = []"
      by (simp only: streamed_calls_def s fst_conv plain_stream_calls)
    have rt: "replied_text parse (concat ds) = concat ds"
      by (simp add: replied_text_def plain_reply [OF h])
    have rc: "replied_calls parse (concat ds) = []"
      by (simp add: replied_calls_def plain_reply [OF h])
    from s st sc rt rc show ?thesis by simp
  qed
  have calls: "filter (\<lambda>fc. fc_id fc = Generated ''grok_stream_'') (calls_of_parts (parts r))
          = List.map_filter (block_call parse ''grok_stream_'')
              (match_all block_at (acc @ content_or_empty (delta_content (delta choice))))"
    if "stream_round parse acc choice = (acc', Inr (Some r))"
    using that by (rule stream_round_block_calls)
  from plain calls stream_round_buffer [of parse acc choice]
       block_matches_need_markers [of buf] block_scan_text [of buf]
  show ?thesis by blast
qed

text \<open>
  C1. The claim asks that the text parts of the streamed deltas, concatenated, equal the text
  part of the non-streamed response for the same backend content, and that both modes emit
  the same number of function calls. The streamed path does neither. It emits in each round
  the text of that round's delta, cleaned of the markers complete within the delta only: a
  block whose open marker comes in one chunk and whose close marker in the next is emitted as
  text in full (the second round emits the call together with the text \<open>[/function_call]\<close>),
  where the non-streamed response has no text at all. The streamed path has no pass for the
  natural-language form, so \<open>Calling function foo\<close> yields one call non-streamed and none
  streamed. And the buffer is trimmed between rounds, so an inline marker split behind a
  blank loses the blank and no longer matches: one call non-streamed, none streamed.
\<close>

theorem streamed_text_differs_from_reply:
  "streamed_text parse_foo [''[function_call]'' @ foo_json, ''[/function_call]'']
     = ''[function_call]'' @ foo_json @ ''[/function_call]''
   \<and> replied_text parse_foo (concat [''[function_call]'' @ foo_json, ''[/function_call]'']) = []
   \<and> length (streamed_calls parse_foo [''Calling function foo'']) = 0
   \<and> length (replied_calls parse_foo (concat [''Calling function foo''])) = 1
   \<and> stream_round parse_foo (''[function_call]'' @ foo_json)
        \<lparr>delta = \<lparr>delta_content = Some ''[/function_call]'', reasoning_content = None,
                   delta_tool_calls = None\<rparr>, chunk_finish_reason = Some ''stop''\<rparr>
      = ([], Inr (Some \<lparr>parts = [FunctionCallPart \<lparr>fc_id = Generated ''grok_stream_'',
                                         fc_name = Some (JString ''foo''),
                                         fc_args = JObject [(''x'', JNumber 1)]\<rparr>,
                                   TextPart ''[/function_call]''],
                         finishReason = STOP, usageMetadata = None,
                         response_text = ''[/function_call]'',
                         functionCalls = Some [\<lparr>fc_id = Generated ''grok_stream_'',
                                         fc_name = Some (JString ''foo''),
                                         fc_args = JObject [(''x'', JNumber 1)]\<rparr>]\<rparr>))
   \<and> streamed_calls parse_foo [''[tool_call: a '', ''for p \"v\"]''] = []
   \<and> streamed_text parse_foo [''[tool_call: a '', ''for p \"v\"]''] = ''[tool_call: afor p \"v\"]''
   \<and> map fc_name (replied_calls parse_foo (concat [''[tool_call: a '', ''for p \"v\"]'']))
       = [Some (JString ''a'')]
   \<and> replied_text parse_foo (concat [''[tool_call: a '', ''for p \"v\"]'']) = []"
  by code_simp

end
